theory Spec2Isabelle
  imports Main "HOL-Library.Word"
begin

unbundle bit_operations_syntax

section \<open>Data model\<close>

text \<open>
  Pieces are the objects \<^verbatim>\<open>{ c: "w" | "b", t: "P" | "N" | "B" | "R" | "Q" | "K" }\<close> of
  \<^verbatim>\<open>board.js\<close>. The board is a JavaScript array indexed by square number
  \<^verbatim>\<open>rank * 8 + file\<close>; reading an index that holds nothing yields \<^verbatim>\<open>undefined\<close>, which the
  code only ever tests for falsiness, exactly like \<^verbatim>\<open>null\<close>. The board is therefore a total
  function from indices to optional pieces: \<open>None\<close> stands for \<^verbatim>\<open>null\<close>, \<^verbatim>\<open>undefined\<close> and a
  missing index alike, and a write at any index (inside the 64 squares or not) is a function
  update, as it is a property write in JavaScript.
\<close>

datatype color = White | Black

datatype ptype = Pawn | Knight | Bishop | Rook | Queen | King

datatype piece = Piece (pc: color) (pt: ptype)

type_synonym board = "int \<Rightarrow> piece option"

record state =
  board :: board
  turn :: color
  castleRight :: string
  ep :: "int option"
  halfmove :: int
  fullmove :: int

text \<open>
  Scores are JavaScript numbers. Evaluators return integer centipawns; search windows may
  also be \<^verbatim>\<open>-Infinity\<close> and \<^verbatim>\<open>Infinity\<close>.
\<close>

datatype jsnum = NegInf | Fin int | PosInf | Undef

text \<open>
  \<open>Undef\<close> is \<^verbatim>\<open>undefined\<close> read where a number is expected (a missing \<^verbatim>\<open>score\<close> property);
  in arithmetic it becomes \<^verbatim>\<open>NaN\<close>, and every comparison with it is false.
\<close>

fun isFinite :: "jsnum \<Rightarrow> bool" where
  "isFinite (Fin _) = True"
| "isFinite _ = False"

fun num_le :: "jsnum \<Rightarrow> jsnum \<Rightarrow> bool" where
  "num_le Undef _ = False"
| "num_le _ Undef = False"
| "num_le NegInf _ = True"
| "num_le _ PosInf = True"
| "num_le (Fin a) (Fin b) = (a \<le> b)"
| "num_le _ _ = False"

fun num_lt :: "jsnum \<Rightarrow> jsnum \<Rightarrow> bool" where
  "num_lt Undef _ = False"
| "num_lt _ Undef = False"
| "num_lt PosInf _ = False"
| "num_lt _ NegInf = False"
| "num_lt (Fin a) (Fin b) = (a < b)"
| "num_lt _ _ = True"

fun num_add :: "jsnum \<Rightarrow> int \<Rightarrow> jsnum" where
  "num_add (Fin a) k = Fin (a + k)"
| "num_add x _ = x"

text \<open>\<^verbatim>\<open>Math.max\<close> and \<^verbatim>\<open>Math.min\<close> return \<^verbatim>\<open>NaN\<close> when an argument is not a number.\<close>

definition num_max :: "jsnum \<Rightarrow> jsnum \<Rightarrow> jsnum" where
  "num_max a b = (if a = Undef \<or> b = Undef then Undef else if num_le a b then b else a)"

definition num_min :: "jsnum \<Rightarrow> jsnum \<Rightarrow> jsnum" where
  "num_min a b = (if a = Undef \<or> b = Undef then Undef else if num_le a b then a else b)"

type_synonym move = "int \<times> int"

section \<open>Board geometry (\<^verbatim>\<open>board.js\<close>)\<close>

text \<open>
  \<^verbatim>\<open>i % 8\<close> is JavaScript's remainder, which takes the sign of the dividend;
  \<^verbatim>\<open>Math.floor(i / 8)\<close> rounds down.
\<close>

definition jsrem :: "int \<Rightarrow> int \<Rightarrow> int" where
  "jsrem a n = (if 0 \<le> a then a mod n else - ((- a) mod n))"

definition toIndex :: "int \<Rightarrow> int \<Rightarrow> int" where
  "toIndex r f = r * 8 + f"

definition rankOf :: "int \<Rightarrow> int" where
  "rankOf i = i div 8"

definition fileOf :: "int \<Rightarrow> int" where
  "fileOf i = jsrem i 8"

definition onBoard :: "int \<Rightarrow> int \<Rightarrow> bool" where
  "onBoard r f = (0 \<le> r \<and> r < 8 \<and> 0 \<le> f \<and> f < 8)"

definition squares :: "int list" where
  "squares = [0..63]"

definition steps :: "int list" where
  "steps = [1..7]"

definition backRank :: "ptype list" where
  "backRank = [Rook, Knight, Bishop, Queen, King, Bishop, Knight, Rook]"

definition makeInitialBoard :: board where
  "makeInitialBoard = (\<lambda>i.
     if 0 \<le> i \<and> i < 8 then Some (Piece Black (backRank ! nat i))
     else if 8 \<le> i \<and> i < 16 then Some (Piece Black Pawn)
     else if 48 \<le> i \<and> i < 56 then Some (Piece White Pawn)
     else if 56 \<le> i \<and> i < 64 then Some (Piece White (backRank ! nat (i - 56)))
     else None)"

definition initialState :: state where
  "initialState = \<lparr> board = makeInitialBoard, turn = White, castleRight = ''KQkq'',
     ep = None, halfmove = 0, fullmove = 1 \<rparr>"

definition other :: "color \<Rightarrow> color" where
  "other c = (if c = White then Black else White)"

section \<open>Pseudo-move generators and attack queries (\<^verbatim>\<open>moves.js\<close>)\<close>

definition blocked :: "state \<Rightarrow> color \<Rightarrow> int \<Rightarrow> bool" where
  "blocked st myColor i = (case board st i of None \<Rightarrow> False | Some q \<Rightarrow> pc q = myColor)"

definition canLand :: "state \<Rightarrow> color \<Rightarrow> int \<Rightarrow> bool" where
  "canLand st myColor i = (board st i = None \<or> \<not> blocked st myColor i)"

definition knightDeltas :: "(int \<times> int) list" where
  "knightDeltas = [(-2, -1), (-2, 1), (-1, -2), (-1, 2), (1, -2), (1, 2), (2, -1), (2, 1)]"

definition dirsDiag :: "(int \<times> int) list" where
  "dirsDiag = [(1, 1), (1, -1), (-1, 1), (-1, -1)]"

definition dirsOrtho :: "(int \<times> int) list" where
  "dirsOrtho = [(1, 0), (-1, 0), (0, 1), (0, -1)]"

text \<open>One pass of the loop \<^verbatim>\<open>for (const [dr, df] of deltas)\<close> of the knight and the king.\<close>

definition stepTargets :: "state \<Rightarrow> color \<Rightarrow> int \<Rightarrow> int \<Rightarrow> (int \<times> int) list \<Rightarrow> int list" where
  "stepTargets st c r f deltas =
     concat (map (\<lambda>(dr, df).
        let rr = r + dr; ff = f + df in
        if \<not> onBoard rr ff then []
        else let idx = toIndex rr ff in
          if canLand st c idx then [idx] else []) deltas)"

text \<open>
  The inner loop \<^verbatim>\<open>for (let s = 1; s <= 7; s++)\<close> of a slider along one direction: it
  breaks off the board and on a friendly piece, and stops after pushing a capture.
\<close>

fun rayTargets :: "state \<Rightarrow> color \<Rightarrow> int \<Rightarrow> int \<Rightarrow> int \<Rightarrow> int \<Rightarrow> int list \<Rightarrow> int list" where
  "rayTargets st c r f dr df [] = []"
| "rayTargets st c r f dr df (s # ss) =
     (let rr = r + dr * s; ff = f + df * s in
      if \<not> onBoard rr ff then []
      else let idx = toIndex rr ff in
        if blocked st c idx then []
        else if board st idx \<noteq> None then [idx]
        else idx # rayTargets st c r f dr df ss)"

definition slideTargets :: "state \<Rightarrow> color \<Rightarrow> int \<Rightarrow> int \<Rightarrow> (int \<times> int) list \<Rightarrow> int list" where
  "slideTargets st c r f deltas =
     concat (map (\<lambda>(dr, df). rayTargets st c r f dr df steps) deltas)"

definition knightMoves :: "state \<Rightarrow> int \<Rightarrow> int list" where
  "knightMoves st i =
     (case board st i of
        None \<Rightarrow> []
      | Some p \<Rightarrow> if pt p \<noteq> Knight then []
                  else stepTargets st (pc p) (rankOf i) (fileOf i) knightDeltas)"

definition bishopMoves :: "state \<Rightarrow> int \<Rightarrow> int list" where
  "bishopMoves st i =
     (case board st i of
        None \<Rightarrow> []
      | Some p \<Rightarrow> if pt p \<noteq> Bishop then []
                  else slideTargets st (pc p) (rankOf i) (fileOf i) dirsDiag)"

definition rookMoves :: "state \<Rightarrow> int \<Rightarrow> int list" where
  "rookMoves st i =
     (case board st i of
        None \<Rightarrow> []
      | Some p \<Rightarrow> if pt p \<noteq> Rook then []
                  else slideTargets st (pc p) (rankOf i) (fileOf i) dirsOrtho)"

definition queenMoves :: "state \<Rightarrow> int \<Rightarrow> int list" where
  "queenMoves st i =
     (case board st i of
        None \<Rightarrow> []
      | Some p \<Rightarrow> if pt p \<noteq> Queen then []
                  else slideTargets st (pc p) (rankOf i) (fileOf i) (dirsOrtho @ dirsDiag))"

text \<open>\<^verbatim>\<open>isSquareAttacked(state, i, color)\<close>: is square \<open>i\<close> attacked by \<open>color\<close>?\<close>

definition holds :: "state \<Rightarrow> int \<Rightarrow> color \<Rightarrow> ptype \<Rightarrow> bool" where
  "holds st i c k = (case board st i of None \<Rightarrow> False | Some q \<Rightarrow> pc q = c \<and> pt q = k)"

definition stepAttack :: "state \<Rightarrow> color \<Rightarrow> ptype \<Rightarrow> int \<Rightarrow> int \<Rightarrow> (int \<times> int) list \<Rightarrow> bool" where
  "stepAttack st c k r f deltas =
     list_ex (\<lambda>(dr, df).
        let rr = r + dr; ff = f + df in
        onBoard rr ff \<and> holds st (toIndex rr ff) c k) deltas"

fun rayAttack :: "state \<Rightarrow> color \<Rightarrow> ptype \<Rightarrow> int \<Rightarrow> int \<Rightarrow> int \<Rightarrow> int \<Rightarrow> int list \<Rightarrow> bool" where
  "rayAttack st c k r f dr df [] = False"
| "rayAttack st c k r f dr df (s # ss) =
     (let rr = r + dr * s; ff = f + df * s in
      if \<not> onBoard rr ff then False
      else case board st (toIndex rr ff) of
             None \<Rightarrow> rayAttack st c k r f dr df ss
           | Some q \<Rightarrow> if pc q \<noteq> c then False else (pt q = k \<or> pt q = Queen))"

definition isSquareAttacked :: "state \<Rightarrow> int \<Rightarrow> color \<Rightarrow> bool" where
  "isSquareAttacked st i c =
     (let r = rankOf i; f = fileOf i;
          pdir = (if c = White then 1 else -1)
      in stepAttack st c Pawn r f [(pdir, -1), (pdir, 1)]
       \<or> stepAttack st c Knight r f knightDeltas
       \<or> list_ex (\<lambda>(dr, df). rayAttack st c Bishop r f dr df steps) dirsDiag
       \<or> list_ex (\<lambda>(dr, df). rayAttack st c Rook r f dr df steps) dirsOrtho
       \<or> stepAttack st c King r f (dirsDiag @ dirsOrtho))"

fun findKingFrom :: "state \<Rightarrow> color \<Rightarrow> int list \<Rightarrow> int" where
  "findKingFrom st c [] = -1"
| "findKingFrom st c (i # is) = (if holds st i c King then i else findKingFrom st c is)"

definition findKing :: "state \<Rightarrow> color \<Rightarrow> int" where
  "findKing st c = findKingFrom st c squares"

definition inCheck :: "state \<Rightarrow> color \<Rightarrow> bool" where
  "inCheck st c =
     (let k = findKing st c in
      if k = -1 then False else isSquareAttacked st k (other c))"

definition kingDeltas :: "(int \<times> int) list" where
  "kingDeltas = [(1, 0), (-1, 0), (0, 1), (0, -1), (1, 1), (1, -1), (-1, 1), (-1, -1)]"

definition hasRight :: "state \<Rightarrow> char \<Rightarrow> bool" where
  "hasRight st ch = (ch \<in> set (castleRight st))"

definition kingMoves :: "state \<Rightarrow> int \<Rightarrow> int list" where
  "kingMoves st i =
     (case board st i of
        None \<Rightarrow> []
      | Some p \<Rightarrow>
         if pt p \<noteq> King then []
         else
           let r = rankOf i; f = fileOf i;
               moves = stepTargets st (pc p) r f kingDeltas;
               enemy = other (pc p);
               kingStart = ((pc p = White \<and> r = 7 \<and> f = 4) \<or> (pc p = Black \<and> r = 0 \<and> f = 4))
           in if \<not> kingStart then moves
              else
                let e = toIndex r 4;
                    safe = (\<lambda>sq. \<not> isSquareAttacked st sq enemy)
                in if pc p = White then
                     moves
                     @ (if hasRight st CHR ''K'' \<and>
                           board st 61 = None \<and> board st 62 = None \<and>
                           safe e \<and> safe 61 \<and> safe 62 \<and> holds st 63 White Rook
                        then [62] else [])
                     @ (if hasRight st CHR ''Q'' \<and>
                           board st 59 = None \<and> board st 58 = None \<and> board st 57 = None \<and>
                           safe e \<and> safe 59 \<and> safe 58 \<and> holds st 56 White Rook
                        then [58] else [])
                   else
                     moves
                     @ (if hasRight st CHR ''k'' \<and>
                           board st 5 = None \<and> board st 6 = None \<and>
                           safe e \<and> safe 5 \<and> safe 6 \<and> holds st 7 Black Rook
                        then [6] else [])
                     @ (if hasRight st CHR ''q'' \<and>
                           board st 3 = None \<and> board st 2 = None \<and> board st 1 = None \<and>
                           safe e \<and> safe 3 \<and> safe 2 \<and> holds st 0 Black Rook
                        then [2] else []))"

definition pawnMoves :: "state \<Rightarrow> int \<Rightarrow> int list" where
  "pawnMoves st i =
     (case board st i of
        None \<Rightarrow> []
      | Some p \<Rightarrow>
         if pt p \<noteq> Pawn then []
         else
           let r = rankOf i; f = fileOf i;
               dir = (if pc p = White then -1 else 1);
               startRank = (if pc p = White then 6 else 1);
               r1 = r + dir;
               pushes =
                 (if onBoard r1 f \<and> board st (toIndex r1 f) = None
                  then toIndex r1 f #
                       (if r = startRank \<and> board st (toIndex (r + 2 * dir) f) = None
                        then [toIndex (r + 2 * dir) f] else [])
                  else []);
               captures =
                 concat (map (\<lambda>df.
                    let rr = r + dir; ff = f + df in
                    if \<not> onBoard rr ff then []
                    else case board st (toIndex rr ff) of
                           None \<Rightarrow> []
                         | Some q \<Rightarrow> if pc q \<noteq> pc p then [toIndex rr ff] else []) [-1, 1]);
               enpassant =
                 (case ep st of
                    None \<Rightarrow> []
                  | Some e \<Rightarrow>
                      if rankOf e = r + dir \<and> \<bar>fileOf e - f\<bar> = 1
                         \<and> holds st (toIndex r (fileOf e)) (other (pc p)) Pawn
                      then [e] else [])
           in pushes @ captures @ enpassant)"

definition generateMoves :: "state \<Rightarrow> int \<Rightarrow> int list" where
  "generateMoves st i =
     (case board st i of
        None \<Rightarrow> []
      | Some p \<Rightarrow>
         (case pt p of
            Knight \<Rightarrow> knightMoves st i
          | Bishop \<Rightarrow> bishopMoves st i
          | Rook \<Rightarrow> rookMoves st i
          | Queen \<Rightarrow> queenMoves st i
          | King \<Rightarrow> kingMoves st i
          | Pawn \<Rightarrow> pawnMoves st i))"

section \<open>Checkers, pins and the legality filter (\<^verbatim>\<open>moves.js\<close>)\<close>

text \<open>
  \<^verbatim>\<open>attackersToSquare\<close> returns two parallel arrays, the attackers and, per attacker,
  \<^verbatim>\<open>null\<close> or the set of squares between it and the target. They are modelled as one list of
  pairs; a set is the list of its elements in insertion order.
\<close>

type_synonym attacker = "int \<times> int list option"

definition stepAttackers :: "state \<Rightarrow> color \<Rightarrow> ptype \<Rightarrow> int \<Rightarrow> int \<Rightarrow> (int \<times> int) list \<Rightarrow> attacker list" where
  "stepAttackers st c k r f deltas =
     concat (map (\<lambda>(dr, df).
        let rr = r + dr; ff = f + df in
        if \<not> onBoard rr ff then []
        else let idx = toIndex rr ff in
          if holds st idx c k then [(idx, None)] else []) deltas)"

fun rayAttacker :: "state \<Rightarrow> color \<Rightarrow> ptype \<Rightarrow> int \<Rightarrow> int \<Rightarrow> int \<Rightarrow> int \<Rightarrow> int list \<Rightarrow> int list \<Rightarrow> attacker list" where
  "rayAttacker st c k r f dr df between [] = []"
| "rayAttacker st c k r f dr df between (s # ss) =
     (let rr = r + dr * s; ff = f + df * s in
      if \<not> onBoard rr ff then []
      else let idx = toIndex rr ff in
        case board st idx of
          None \<Rightarrow> rayAttacker st c k r f dr df (between @ [idx]) ss
        | Some q \<Rightarrow>
            if pc q \<noteq> c then []
            else if pt q = k \<or> pt q = Queen then [(idx, Some between)]
            else [])"

definition rayDirs :: "(int \<times> int \<times> ptype) list" where
  "rayDirs = [(1, 0, Rook), (-1, 0, Rook), (0, 1, Rook), (0, -1, Rook),
              (1, 1, Bishop), (1, -1, Bishop), (-1, 1, Bishop), (-1, -1, Bishop)]"

definition attackersToSquare :: "state \<Rightarrow> int \<Rightarrow> color \<Rightarrow> attacker list" where
  "attackersToSquare st sq c =
     (let r = rankOf sq; f = fileOf sq;
          pdir = (if c = White then 1 else -1)
      in stepAttackers st c Pawn r f [(pdir, -1), (pdir, 1)]
       @ stepAttackers st c Knight r f knightDeltas
       @ concat (map (\<lambda>(dr, df, k). rayAttacker st c k r f dr df [] steps) rayDirs)
       @ stepAttackers st c King r f kingDeltas)"

text \<open>
  \<^verbatim>\<open>computePins\<close>: along each ray from the king, a single friendly piece followed by an
  enemy slider of the ray's kind is pinned. \<open>pinRay\<close> is the inner loop; it returns the
  pinned square, if any. The result is the \<^verbatim>\<open>Map\<close> from pinned square to unit direction.
\<close>

fun pinRay :: "state \<Rightarrow> color \<Rightarrow> ptype \<Rightarrow> int \<Rightarrow> int \<Rightarrow> int \<Rightarrow> int \<Rightarrow> int option \<Rightarrow> int list \<Rightarrow> int option" where
  "pinRay st c k kr kf dr df allySq [] = None"
| "pinRay st c k kr kf dr df allySq (s # ss) =
     (let rr = kr + dr * s; ff = kf + df * s in
      if \<not> onBoard rr ff then None
      else let idx = toIndex rr ff in
        case board st idx of
          None \<Rightarrow> pinRay st c k kr kf dr df allySq ss
        | Some q \<Rightarrow>
            if pc q = c then
              (if allySq = None then pinRay st c k kr kf dr df (Some idx) ss else None)
            else
              (if allySq \<noteq> None \<and> (pt q = k \<or> pt q = Queen) then allySq else None))"

type_synonym pins = "int \<Rightarrow> (int \<times> int) option"

fun computePinsLoop :: "state \<Rightarrow> color \<Rightarrow> int \<Rightarrow> int \<Rightarrow> (int \<times> int \<times> ptype) list \<Rightarrow> pins \<Rightarrow> pins" where
  "computePinsLoop st c kr kf [] pins = pins"
| "computePinsLoop st c kr kf ((dr, df, k) # ds) pins =
     computePinsLoop st c kr kf ds
       (case pinRay st c k kr kf dr df None steps of
          None \<Rightarrow> pins
        | Some allySq \<Rightarrow> pins(allySq \<mapsto> (sgn dr, sgn df)))"

definition computePins :: "state \<Rightarrow> color \<Rightarrow> int \<Rightarrow> pins" where
  "computePins st c kingSq = computePinsLoop st c (rankOf kingSq) (fileOf kingSq) rayDirs Map.empty"

definition alongRay :: "int \<Rightarrow> int \<Rightarrow> int \<Rightarrow> int \<Rightarrow> bool" where
  "alongRay from to dr df =
     (let dR = rankOf to - rankOf from; dF = fileOf to - fileOf from in
      if dr = 0 \<and> df = 0 then False
      else if dr = 0 then (if dR \<noteq> 0 then False else sgn dF = df \<or> sgn dF = - df)
      else if df = 0 then (if dF \<noteq> 0 then False else sgn dR = dr \<or> sgn dR = - dr)
      else if \<bar>dR\<bar> \<noteq> \<bar>dF\<bar> then False
      else (sgn dR = dr \<and> sgn dF = df) \<or> (sgn dR = - dr \<and> sgn dF = - df))"

text \<open>
  \<^verbatim>\<open>leavesKingInCheck(state, from, to, knownKingSq)\<close> mutates \<^verbatim>\<open>state.board\<close> in place,
  asks the attack query and writes the saved pieces back. The model returns the answer
  together with the state the call leaves behind.
\<close>

definition setBoard :: "state \<Rightarrow> int \<Rightarrow> piece option \<Rightarrow> state" where
  "setBoard st i v = st \<lparr> board := (board st)(i := v) \<rparr>"

definition leavesKingInCheck_run :: "state \<Rightarrow> int \<Rightarrow> int \<Rightarrow> int option \<Rightarrow> bool \<times> state" where
  "leavesKingInCheck_run st from to knownKingSq =
     (case board st from of
        None \<Rightarrow> (False, st)
      | Some mover \<Rightarrow>
          let dir = (if pc mover = White then -1 else 1);
              savedFrom = Some mover;
              savedTo = board st to;
              isEP = (pt mover = Pawn \<and> Some to = ep st \<and> fileOf from \<noteq> fileOf to
                      \<and> savedTo = None);
              epCapIdx = (if isEP then toIndex (rankOf to - dir) (fileOf to) else -1);
              epCapSaved = (if isEP then board st epCapIdx else None);
              st1 = (if epCapIdx \<noteq> -1 then setBoard st epCapIdx None else st);
              st2 = setBoard st1 to savedFrom;
              st3 = setBoard st2 from None;
              color = pc mover;
              enemy = other color;
              kingSq = (if pt mover = King then to
                        else case knownKingSq of Some k \<Rightarrow> k | None \<Rightarrow> findKing st3 color);
              illegal = isSquareAttacked st3 kingSq enemy;
              st4 = setBoard st3 from savedFrom;
              st5 = setBoard st4 to savedTo;
              st6 = (if epCapIdx \<noteq> -1 then setBoard st5 epCapIdx epCapSaved else st5)
          in (illegal, st6))"

definition leavesKingInCheck :: "state \<Rightarrow> int \<Rightarrow> int \<Rightarrow> int option \<Rightarrow> bool" where
  "leavesKingInCheck st from to knownKingSq = fst (leavesKingInCheck_run st from to knownKingSq)"

text \<open>
  The loop \<^verbatim>\<open>for (const to of pseudo)\<close> of \<^verbatim>\<open>allLegalMoves\<close>: candidates rejected by
  \<open>keep\<close> are skipped (\<^verbatim>\<open>continue\<close>), the others go through the do/undo check on the
  current state.
\<close>

fun filterLegal :: "int \<Rightarrow> int \<Rightarrow> (int \<Rightarrow> bool) \<Rightarrow> int list \<Rightarrow> state \<Rightarrow> move list \<Rightarrow> state \<times> move list" where
  "filterLegal i kingSq keep [] st moves = (st, moves)"
| "filterLegal i kingSq keep (to # tos) st moves =
     (if \<not> keep to then filterLegal i kingSq keep tos st moves
      else case leavesKingInCheck_run st i to (Some kingSq) of
             (illegal, st') \<Rightarrow>
               filterLegal i kingSq keep tos st' (if illegal then moves else moves @ [(i, to)]))"

text \<open>Double check: the first king of the colour is found, its moves are filtered, \<^verbatim>\<open>break\<close>.\<close>

fun doubleCheckLoop :: "color \<Rightarrow> int \<Rightarrow> int list \<Rightarrow> state \<Rightarrow> move list \<Rightarrow> state \<times> move list" where
  "doubleCheckLoop c kingSq [] st moves = (st, moves)"
| "doubleCheckLoop c kingSq (i # is) st moves =
     (if \<not> holds st i c King then doubleCheckLoop c kingSq is st moves
      else filterLegal i kingSq (\<lambda>_. True) (kingMoves st i) st moves)"

fun mainLoop :: "color \<Rightarrow> int \<Rightarrow> bool \<Rightarrow> int \<Rightarrow> int list option \<Rightarrow> pins \<Rightarrow> int list \<Rightarrow> state \<Rightarrow> move list \<Rightarrow> state \<times> move list" where
  "mainLoop c kingSq single checkerSq blockSquares pins [] st moves = (st, moves)"
| "mainLoop c kingSq single checkerSq blockSquares pins (i # is) st moves =
     (case board st i of
        None \<Rightarrow> mainLoop c kingSq single checkerSq blockSquares pins is st moves
      | Some p \<Rightarrow>
          if pc p \<noteq> c then mainLoop c kingSq single checkerSq blockSquares pins is st moves
          else
            let pseudo = generateMoves st i;
                isKing = (pt p = King);
                pinDir = pins i;
                keep = (\<lambda>to.
                  \<not> (single \<and> \<not> isKing \<and>
                     to \<noteq> checkerSq \<and>
                     \<not> (case blockSquares of None \<Rightarrow> False | Some bs \<Rightarrow> to \<in> set bs))
                  \<and> \<not> (\<not> isKing \<and>
                     (case pinDir of None \<Rightarrow> False | Some (dr, df) \<Rightarrow> \<not> alongRay i to dr df)))
            in case filterLegal i kingSq keep pseudo st moves of
                 (st', moves') \<Rightarrow>
                   mainLoop c kingSq single checkerSq blockSquares pins is st' moves')"

definition allLegalMoves_run :: "state \<Rightarrow> color \<Rightarrow> state \<times> move list" where
  "allLegalMoves_run st c =
     (let kingSq = findKing st c in
      if kingSq = -1 then (st, [])
      else
        let attackers = attackersToSquare st kingSq (other c) in
        if length attackers \<ge> 2 then doubleCheckLoop c kingSq squares st []
        else
          let single = (length attackers = 1);
              checkerSq = (if single then fst (hd attackers) else -1);
              blockSquares =
                (if single then
                   (case snd (hd attackers) of
                      None \<Rightarrow> None
                    | Some between \<Rightarrow> if between \<noteq> [] then Some between else None)
                 else None);
              pins = computePins st c kingSq
          in mainLoop c kingSq single checkerSq blockSquares pins squares st [])"

definition allLegalMoves :: "state \<Rightarrow> color \<Rightarrow> move list" where
  "allLegalMoves st c = snd (allLegalMoves_run st c)"

section \<open>Move application (\<^verbatim>\<open>rules.js\<close>, \<^verbatim>\<open>src/ai/pure.js\<close>)\<close>

text \<open>
  \<^verbatim>\<open>removeCastleRight(s, ...codes)\<close> rebuilds the rights string from the fixed order
  \<^verbatim>\<open>["K", "Q", "k", "q"]\<close>, keeping the symbols present and not removed.
\<close>

definition removeCastleRight :: "state \<Rightarrow> char list \<Rightarrow> state" where
  "removeCastleRight st codes =
     st \<lparr> castleRight := filter (\<lambda>x. x \<in> set (castleRight st) \<and> x \<notin> set codes) ''KQkq'' \<rparr>"

text \<open>
  \<^verbatim>\<open>cloneState\<close> copies the scalar fields and \<^verbatim>\<open>state.board.slice()\<close>; the copy of an array
  holds its elements (indices from 0) and none of its other properties.
\<close>

definition cloneState :: "state \<Rightarrow> state" where
  "cloneState st = st \<lparr> board := (\<lambda>i. if 0 \<le> i then board st i else None) \<rparr>"

definition applyMovePure :: "state \<Rightarrow> int \<Rightarrow> int \<Rightarrow> state" where
  "applyMovePure st from to =
     (case board st from of
        None \<Rightarrow> st
      | Some mover \<Rightarrow>
          let fromR = rankOf from; fromF = fileOf from;
              toR = rankOf to; toF = fileOf to;
              dir = (if pc mover = White then -1 else 1);
              isCastle = (pt mover = King \<and> \<bar>toF - fromF\<bar> = 2);
              isEP = (pt mover = Pawn \<and> Some to = ep st \<and> fromF \<noteq> toF);
              isPromotion = (pt mover = Pawn \<and> (toR = 0 \<or> toR = 7));
              capturedIndex = (if isEP then toIndex (toR - dir) toF else to);
              captured = board st capturedIndex;
              s1 = st \<lparr> halfmove := (if pt mover = Pawn \<or> captured \<noteq> None then 0
                                      else halfmove st + 1) \<rparr>;
              s2 = setBoard (setBoard s1 to (Some mover)) from None;
              s3 = (if isEP then setBoard s2 capturedIndex None else s2);
              s4 = (if isPromotion then setBoard s3 to (Some (Piece (pc mover) Queen)) else s3);
              s5 = (if isCastle then
                      (if pc mover = White then
                         removeCastleRight
                           (if to = toIndex 7 6
                            then setBoard (setBoard s4 (toIndex 7 5) (board s4 (toIndex 7 7)))
                                   (toIndex 7 7) None
                            else setBoard (setBoard s4 (toIndex 7 3) (board s4 (toIndex 7 0)))
                                   (toIndex 7 0) None)
                           ''KQ''
                       else
                         removeCastleRight
                           (if to = toIndex 0 6
                            then setBoard (setBoard s4 (toIndex 0 5) (board s4 (toIndex 0 7)))
                                   (toIndex 0 7) None
                            else setBoard (setBoard s4 (toIndex 0 3) (board s4 (toIndex 0 0)))
                                   (toIndex 0 0) None)
                           ''kq'')
                    else s4);
              s6 = s5 \<lparr> ep := (if pt mover = Pawn \<and> \<bar>toR - fromR\<bar> = 2
                                then Some (toIndex ((toR + fromR) div 2) fromF) else None) \<rparr>;
              s7 = (if pt mover = King then
                      (if pc mover = White then removeCastleRight s6 ''KQ''
                       else removeCastleRight s6 ''kq'')
                    else s6);
              s8 = (if pt mover = Rook then
                      (let a = (if from = toIndex 7 0 then removeCastleRight s7 ''Q'' else s7);
                           b = (if from = toIndex 7 7 then removeCastleRight a ''K'' else a);
                           c = (if from = toIndex 0 0 then removeCastleRight b ''q'' else b)
                       in if from = toIndex 0 7 then removeCastleRight c ''k'' else c)
                    else s7);
              s9 = (if (case captured of None \<Rightarrow> False | Some q \<Rightarrow> pt q = Rook) then
                      (let a = (if to = toIndex 7 0 then removeCastleRight s8 ''Q'' else s8);
                           b = (if to = toIndex 7 7 then removeCastleRight a ''K'' else a);
                           c = (if to = toIndex 0 0 then removeCastleRight b ''q'' else b)
                       in if to = toIndex 0 7 then removeCastleRight c ''k'' else c)
                    else s8);
              s10 = s9 \<lparr> turn := (if turn s9 = White then Black else White) \<rparr>
          in if turn s10 = White then s10 \<lparr> fullmove := fullmove s10 + 1 \<rparr> else s10)"

section \<open>Transposition table (\<^verbatim>\<open>src/ai/tt.js\<close>)\<close>

datatype tt_flag = EXACT | LOWER | UPPER

record tt_entry =
  e_key :: "64 word"
  e_depth :: int
  e_flag :: tt_flag
  e_score :: jsnum
  e_bestMove :: "move option"

text \<open>The module state: \<^verbatim>\<open>_mask\<close> and \<^verbatim>\<open>_table\<close> (an array of \<^verbatim>\<open>_mask + 1\<close> slots).\<close>

record tt =
  mask :: nat
  table :: "nat \<Rightarrow> tt_entry option"

text \<open>\<^verbatim>\<open>x | 0\<close>: conversion of an integral number to a signed 32-bit integer.\<close>

definition toInt32 :: "int \<Rightarrow> int" where
  "toInt32 n = sint (word_of_int n :: 32 word)"

definition ttInit :: "nat \<Rightarrow> tt" where
  "ttInit sizePow2 =
     (let p = (if sizePow2 < 12 then 12 else if sizePow2 > 22 then 22 else sizePow2);
          size = (2::nat) ^ p
      in \<lparr> mask = size - 1, table = (\<lambda>_. None) \<rparr>)"

definition indexFor :: "tt \<Rightarrow> 64 word \<Rightarrow> nat" where
  "indexFor T keyBig =
     (let x = keyBig XOR drop_bit 32 keyBig XOR drop_bit 53 keyBig
      in unat (x AND word_of_nat (mask T)))"

definition ttStore :: "tt \<Rightarrow> 64 word \<Rightarrow> int \<Rightarrow> tt_flag \<Rightarrow> jsnum \<Rightarrow> move option \<Rightarrow> tt" where
  "ttStore T keyBig d fl sc bm =
     (let i = indexFor T keyBig;
          shouldReplace =
            (case table T i of
               None \<Rightarrow> True
             | Some e \<Rightarrow> if e_key e \<noteq> keyBig then toInt32 d \<ge> toInt32 (e_depth e) else True)
      in if \<not> shouldReplace then T
         else T \<lparr> table := (table T)(i :=
                Some \<lparr> e_key = keyBig, e_depth = toInt32 d, e_flag = fl, e_score = sc, e_bestMove = bm \<rparr>) \<rparr>)"

text \<open>
  \<^verbatim>\<open>ttProbe\<close> returns \<^verbatim>\<open>null\<close>, the stored entry object, or a fresh object holding only
  \<^verbatim>\<open>bestMove\<close>.
\<close>

datatype probe = Miss | Full tt_entry | HintOnly "move option"

definition ttProbe :: "tt \<Rightarrow> 64 word \<Rightarrow> int \<Rightarrow> probe" where
  "ttProbe T keyBig reqDepth =
     (case table T (indexFor T keyBig) of
        None \<Rightarrow> Miss
      | Some e \<Rightarrow>
          if e_key e \<noteq> keyBig then Miss
          else if toInt32 (e_depth e) \<ge> toInt32 reqDepth then Full e
          else HintOnly (e_bestMove e))"

definition ttClear :: "tt \<Rightarrow> tt" where
  "ttClear T = T \<lparr> table := (\<lambda>_. None) \<rparr>"

text \<open>Depths are 32-bit integers; every entry written by \<^verbatim>\<open>ttStore\<close> holds one.\<close>

definition is_int32 :: "int \<Rightarrow> bool" where
  "is_int32 n = (- (2 ^ 31) \<le> n \<and> n < 2 ^ 31)"

definition tt_depths_ok :: "tt \<Rightarrow> bool" where
  "tt_depths_ok T = (\<forall>i e. table T i = Some e \<longrightarrow> is_int32 (e_depth e))"

section \<open>Zobrist hashing (\<^verbatim>\<open>src/ai/zobrist.js\<close>)\<close>

text \<open>
  The module state \<^verbatim>\<open>ZOB\<close>, filled once by \<^verbatim>\<open>initZobrist\<close> with 64-bit values drawn from
  the caller's generator: \<^verbatim>\<open>pieces[color][type][square]\<close>, \<^verbatim>\<open>castle[0..3]\<close>,
  \<^verbatim>\<open>epFile[0..7]\<close> and \<^verbatim>\<open>sideToMove\<close>. The tables are a parameter of the model; before
  \<^verbatim>\<open>initZobrist\<close> has run \<^verbatim>\<open>ZOB\<close> is \<^verbatim>\<open>null\<close> and \<^verbatim>\<open>computeKey\<close> throws.
\<close>

record zobrist =
  pieces :: "nat \<Rightarrow> nat \<Rightarrow> int \<Rightarrow> 64 word"
  castle :: "nat \<Rightarrow> 64 word"
  epFile :: "int \<Rightarrow> 64 word"
  sideToMove :: "64 word"

datatype zobrist_error = NotInitialised

definition MASK64 :: "64 word" where
  "MASK64 = 0xFFFFFFFFFFFFFFFF"

fun TYPE_IDX :: "ptype \<Rightarrow> nat" where
  "TYPE_IDX Pawn = 0"
| "TYPE_IDX Knight = 1"
| "TYPE_IDX Bishop = 2"
| "TYPE_IDX Rook = 3"
| "TYPE_IDX Queen = 4"
| "TYPE_IDX King = 5"

fun COLOR_IDX :: "color \<Rightarrow> nat" where
  "COLOR_IDX White = 0"
| "COLOR_IDX Black = 1"

definition epFileIndexEffective :: "state \<Rightarrow> int" where
  "epFileIndexEffective st =
     (case ep st of
        None \<Rightarrow> -1
      | Some e \<Rightarrow>
          let r = rankOf e; f = fileOf e;
              side = turn st;
              dr = (if side = White then 1 else -1)
          in if list_ex (\<lambda>nf. \<not> (nf < 0 \<or> nf > 7)
                              \<and> holds st (toIndex (r + dr) nf) side Pawn) [f - 1, f + 1]
             then f else -1)"

definition hasCastleRight :: "string \<Rightarrow> char \<Rightarrow> bool" where
  "hasCastleRight cr ch = (if cr = [] then False else ch \<in> set cr)"

fun pieceKeys :: "zobrist \<Rightarrow> state \<Rightarrow> int list \<Rightarrow> 64 word \<Rightarrow> 64 word" where
  "pieceKeys Z st [] h = h"
| "pieceKeys Z st (i # is) h =
     pieceKeys Z st is
       (case board st i of
          None \<Rightarrow> h
        | Some p \<Rightarrow> h XOR pieces Z (COLOR_IDX (pc p)) (TYPE_IDX (pt p)) i)"

definition keyOf :: "zobrist \<Rightarrow> state \<Rightarrow> 64 word" where
  "keyOf Z st =
     (let h0 = pieceKeys Z st squares 0;
          h1 = (if turn st = Black then h0 XOR sideToMove Z else h0);
          h2 = (if hasCastleRight (castleRight st) CHR ''K'' then h1 XOR castle Z 0 else h1);
          h3 = (if hasCastleRight (castleRight st) CHR ''Q'' then h2 XOR castle Z 1 else h2);
          h4 = (if hasCastleRight (castleRight st) CHR ''k'' then h3 XOR castle Z 2 else h3);
          h5 = (if hasCastleRight (castleRight st) CHR ''q'' then h4 XOR castle Z 3 else h4);
          ef = epFileIndexEffective st;
          h6 = (if ef \<ge> 0 then h5 XOR epFile Z ef else h5)
      in h6 AND MASK64)"

definition computeKey :: "zobrist option \<Rightarrow> state \<Rightarrow> zobrist_error + 64 word" where
  "computeKey ZOB st =
     (case ZOB of
        None \<Rightarrow> Inl NotInitialised
      | Some Z \<Rightarrow> Inr (keyOf Z st))"

text \<open>
  The spec's condition for hashing the en-passant file: a pawn of the side to move stands
  on a file next to the en-passant square \<open>e\<close>, on the rank from which it captures onto
  \<open>e\<close> (one rank below \<open>e\<close> for White, whose pawns move towards rank index 0, one rank
  above for Black).
\<close>

definition epConsumable :: "state \<Rightarrow> int \<Rightarrow> bool" where
  "epConsumable st e =
     (let side = turn st;
          r = rankOf e + (if side = White then 1 else -1);
          pawnOn = (\<lambda>nf. 0 \<le> nf \<and> nf \<le> 7 \<and> board st (toIndex r nf) = Some (Piece side Pawn))
      in pawnOn (fileOf e - 1) \<or> pawnOn (fileOf e + 1))"

section \<open>Search: environment and helpers (\<^verbatim>\<open>src/ai/search.js\<close>)\<close>

text \<open>
  The search reads and writes module-level state: the deadline, the killer and history
  tables, the transposition table, and the repetition map that is passed along by
  reference. It also reads the wall clock. The environment gathers
  them; \<open>clock\<close> gives the value of the \<open>n\<close>-th call of \<^verbatim>\<open>Date.now()\<close> and \<open>reads\<close> counts
  the calls made so far, so every sequence of clock readings is a possible environment.
  The Zobrist tables and the evaluator are fixed during a search and form the
  configuration. \<^verbatim>\<open>maybeYield\<close> reads the separate \<^verbatim>\<open>performance\<close> clock, touches only
  \<^verbatim>\<open>_lastYield\<close> and hands control to the host, which by contract does not touch the
  search's state: it is the identity on the environment.
\<close>

record env =
  deadline :: jsnum
  clock :: "nat \<Rightarrow> int"
  reads :: nat
  killers :: "int \<Rightarrow> int \<times> int"
  history :: "nat \<Rightarrow> int \<Rightarrow> int \<Rightarrow> int"
  ttable :: tt
  rep :: "64 word \<Rightarrow> int"

record config =
  zob :: zobrist
  evalFn :: "state \<Rightarrow> int"

definition dateNow :: "env \<Rightarrow> int \<times> env" where
  "dateNow e = (clock e (reads e), e \<lparr> reads := Suc (reads e) \<rparr>)"

definition timeExpired :: "env \<Rightarrow> bool \<times> env" where
  "timeExpired e = (case dateNow e of (now, e') \<Rightarrow> (num_le (deadline e) (Fin now), e'))"

definition MAX_PLY :: int where
  "MAX_PLY = 128"

text \<open>
  \<^verbatim>\<open>(from << 6) | to\<close>: both operators work on signed 32-bit integers, so each operand and
  the shifted value are wrapped to 32 bits.
\<close>

definition moveKey :: "int \<Rightarrow> int \<Rightarrow> int" where
  "moveKey from to = toInt32 (push_bit 6 (toInt32 from)) OR toInt32 to"

definition addKiller :: "env \<Rightarrow> int \<Rightarrow> int \<Rightarrow> env" where
  "addKiller e ply mkey =
     (if ply < 0 \<or> ply \<ge> MAX_PLY then e
      else case killers e ply of
             (k0, k1) \<Rightarrow> if k0 \<noteq> mkey then e \<lparr> killers := (killers e)(ply := (mkey, k0)) \<rparr>
                         else e)"

definition bumpHistory :: "env \<Rightarrow> nat \<Rightarrow> int \<Rightarrow> int \<Rightarrow> int \<Rightarrow> env" where
  "bumpHistory e sideIdx from to depth =
     (let bonus = (depth + 1) * (depth + 1) * 32;
          cur = toInt32 (history e sideIdx from to);
          nxt = (if cur + bonus > 1000000 then 1000000 else cur + bonus)
      in e \<lparr> history := (\<lambda>s f t. if s = sideIdx \<and> f = from \<and> t = to then nxt
                                  else history e s f t) \<rparr>)"

fun isMajorOrMinor :: "ptype \<Rightarrow> bool" where
  "isMajorOrMinor Pawn = False"
| "isMajorOrMinor King = False"
| "isMajorOrMinor _ = True"

definition nonPawnPieceCount :: "state \<Rightarrow> nat" where
  "nonPawnPieceCount st =
     length (filter (\<lambda>i. case board st i of None \<Rightarrow> False
                                            | Some p \<Rightarrow> isMajorOrMinor (pt p)) squares)"

definition endgamePhase :: "state \<Rightarrow> bool" where
  "endgamePhase st = (nonPawnPieceCount st \<le> 4)"

definition countType :: "state \<Rightarrow> (ptype \<Rightarrow> bool) \<Rightarrow> nat" where
  "countType st P =
     length (filter (\<lambda>i. case board st i of None \<Rightarrow> False | Some p \<Rightarrow> P (pt p)) squares)"

definition insufficientMaterial :: "state \<Rightarrow> bool" where
  "insufficientMaterial st =
     (let pawns = countType st (\<lambda>t. t = Pawn);
          heavy = countType st (\<lambda>t. t = Rook \<or> t = Queen);
          minors = countType st (\<lambda>t. t = Bishop \<or> t = Knight)
      in if pawns > 0 then False
         else if heavy > 0 then False
         else minors \<le> 2)"

fun VAL :: "ptype \<Rightarrow> int" where
  "VAL Pawn = 100"
| "VAL Knight = 320"
| "VAL Bishop = 330"
| "VAL Rook = 500"
| "VAL Queen = 900"
| "VAL King = 0"

definition CONTEMPT :: int where
  "CONTEMPT = 12"

definition drawScore :: "color \<Rightarrow> jsnum" where
  "drawScore tn = (if tn = White then Fin (- CONTEMPT) else Fin CONTEMPT)"

definition isEnPassantMove :: "state \<Rightarrow> int \<Rightarrow> int \<Rightarrow> bool" where
  "isEnPassantMove st from to =
     (case board st from of
        None \<Rightarrow> False
      | Some mover \<Rightarrow>
          if pt mover \<noteq> Pawn then False
          else if ep st \<noteq> Some to then False
          else if \<bar>fileOf to - fileOf from\<bar> \<noteq> 1 then False
          else holds st (toIndex (rankOf to - (if pc mover = White then -1 else 1)) (fileOf to))
                 (other (pc mover)) Pawn)"

definition isCapture :: "state \<Rightarrow> int \<Rightarrow> int \<Rightarrow> bool" where
  "isCapture st from to =
     (case board st from of
        None \<Rightarrow> False
      | Some mover \<Rightarrow>
          (case board st to of None \<Rightarrow> False | Some target \<Rightarrow> pc target \<noteq> pc mover)
          \<or> isEnPassantMove st from to)"

definition isPromotionMove :: "state \<Rightarrow> int \<Rightarrow> int \<Rightarrow> bool" where
  "isPromotionMove st from to =
     (case board st from of
        None \<Rightarrow> False
      | Some p \<Rightarrow>
          if pt p \<noteq> Pawn then False
          else (pc p = White \<and> rankOf to = 0) \<or> (pc p = Black \<and> rankOf to = 7))"

definition isCastleMove :: "state \<Rightarrow> int \<Rightarrow> int \<Rightarrow> bool" where
  "isCastleMove st from to =
     (case board st from of
        None \<Rightarrow> False
      | Some p \<Rightarrow> if pt p \<noteq> King then False else \<bar>jsrem to 8 - jsrem from 8\<bar> = 2)"

text \<open>
  \<^verbatim>\<open>givesCheckAfter\<close> makes the move on the caller's board, asks whether the enemy king's
  square is attacked by the mover's side, and undoes the move, like \<^verbatim>\<open>leavesKingInCheck\<close>.
\<close>

definition givesCheckAfter_run :: "state \<Rightarrow> int \<Rightarrow> int \<Rightarrow> int \<Rightarrow> bool \<times> state" where
  "givesCheckAfter_run st from to enemyKingSq =
     (case board st from of
        None \<Rightarrow> (False, st)
      | Some mover \<Rightarrow>
          let dir = (if pc mover = White then -1 else 1);
              savedFrom = Some mover;
              savedTo = board st to;
              isEP = (pt mover = Pawn \<and> Some to = ep st \<and> fileOf from \<noteq> fileOf to
                      \<and> savedTo = None);
              epCapIdx = (if isEP then toIndex (rankOf to - dir) (fileOf to) else -1);
              epCapSaved = (if isEP then board st epCapIdx else None);
              st1 = (if epCapIdx \<noteq> -1 then setBoard st epCapIdx None else st);
              st2 = setBoard st1 to savedFrom;
              st3 = setBoard st2 from None;
              check = isSquareAttacked st3 enemyKingSq (pc mover);
              st4 = setBoard st3 from savedFrom;
              st5 = setBoard st4 to savedTo;
              st6 = (if epCapIdx \<noteq> -1 then setBoard st5 epCapIdx epCapSaved else st5)
          in (check, st6))"

definition givesCheckAfter :: "state \<Rightarrow> int \<Rightarrow> int \<Rightarrow> int \<Rightarrow> bool" where
  "givesCheckAfter st from to enemyKingSq = fst (givesCheckAfter_run st from to enemyKingSq)"

record ann =
  mfrom :: int
  mto :: int
  os :: int
  mkey :: int
  quiet :: bool

definition killerAt :: "env \<Rightarrow> int \<Rightarrow> int \<times> int" where
  "killerAt e ply = (if 0 \<le> ply \<and> ply < MAX_PLY then killers e ply else (-1, -1))"

text \<open>
  The centre bonus \<^verbatim>\<open>(8 - (|r - 3.5| + |f - 3.5|)) | 0\<close>: the two distances are odd
  multiples of one half, so their sum is the integer \<open>(|2r - 7| + |2f - 7|) div 2\<close>.
\<close>

definition centerBonus :: "int \<Rightarrow> int" where
  "centerBonus to = 8 - (\<bar>2 * rankOf to - 7\<bar> + \<bar>2 * jsrem to 8 - 7\<bar>) div 2"

definition annotateOne :: "env \<Rightarrow> state \<Rightarrow> move option \<Rightarrow> nat \<Rightarrow> int \<Rightarrow> bool \<Rightarrow> int \<Rightarrow> move \<Rightarrow> ann" where
  "annotateOne e st ttBest sideIdx ply light enemyKingSq m =
     (case m of (from, to) \<Rightarrow>
        let mover = board st from;
            target = board st to;
            mv = (case mover of None \<Rightarrow> 0 | Some p \<Rightarrow> VAL (pt p));
            epCap = isEnPassantMove st from to;
            vv = (if epCap then VAL Pawn else (case target of None \<Rightarrow> 0 | Some q \<Rightarrow> VAL (pt q)));
            isCap = (target \<noteq> None \<or> epCap);
            os0 = (if isCap then 10 * vv - mv else 0);
            qt = (\<not> isCap \<and> \<not> isPromotionMove st from to \<and> \<not> isCastleMove st from to);
            os1 = (if \<not> light \<and> qt \<and> enemyKingSq \<noteq> -1
                      \<and> givesCheckAfter st from to enemyKingSq
                   then os0 + 150 else os0);
            os2 = (if qt then os1 + centerBonus to else os1);
            os3 = (if ttBest = Some (from, to) then os2 + 1000000000 else os2);
            mk = moveKey from to;
            os4 = (if qt then
                     (if mk = fst (killerAt e ply) then os3 + 500000000
                      else if mk = snd (killerAt e ply) then os3 + 500000000 - 1
                      else os3) + toInt32 (history e sideIdx from to)
                   else os3)
        in \<lparr> mfrom = from, mto = to, os = os4, mkey = mk, quiet = qt \<rparr>)"

text \<open>\<^verbatim>\<open>out.sort((a, b) => b.os - a.os)\<close>: a stable sort, descending by \<^verbatim>\<open>os\<close>.\<close>

definition annotateMoves :: "env \<Rightarrow> state \<Rightarrow> move list \<Rightarrow> move option \<Rightarrow> nat \<Rightarrow> int \<Rightarrow> bool \<Rightarrow> ann list" where
  "annotateMoves e st moves ttBest sideIdx ply light =
     (let enemyKingSq = findKing st (other (turn st))
      in sort_key (\<lambda>a. - os a)
           (map (annotateOne e st ttBest sideIdx ply light enemyKingSq) moves))"

definition fiftyMoveDraw :: "state \<Rightarrow> bool" where
  "fiftyMoveDraw st = (halfmove st \<ge> 100)"

definition MATE :: int where
  "MATE = 100000"

definition terminalScoreGivenMoves :: "state \<Rightarrow> move list \<Rightarrow> int \<Rightarrow> jsnum option" where
  "terminalScoreGivenMoves st moves depth =
     (if length moves > 0 then None
      else if inCheck st (turn st) then
        (let plyPenalty = 100 - depth
         in Some (Fin ((if turn st = White then -1 else 1) * (MATE - plyPenalty))))
      else Some (Fin 0))"

definition hasNonPawnMaterial :: "state \<Rightarrow> color \<Rightarrow> bool" where
  "hasNonPawnMaterial st side =
     list_ex (\<lambda>i. case board st i of
                    None \<Rightarrow> False
                  | Some p \<Rightarrow> pc p = side \<and> isMajorOrMinor (pt p)) squares"

definition makeNullMove :: "state \<Rightarrow> state" where
  "makeNullMove st = (cloneState st) \<lparr> turn := (if turn st = White then Black else White), ep := None \<rparr>"

definition setRep :: "env \<Rightarrow> 64 word \<Rightarrow> int \<Rightarrow> env" where
  "setRep e k v = e \<lparr> rep := (rep e)(k := v) \<rparr>"

section \<open>Search: quiescence and alpha-beta (\<^verbatim>\<open>src/ai/search.js\<close>)\<close>

text \<open>
  The recursion of the search is bounded by fuel: \<open>None\<close> means the fuel ran out, so a
  statement that the search returns is a statement that some fuel yields \<open>Some\<close>.
  The loops over the ordered moves take the recursive call as a parameter. The position
  passed down is the clone \<^verbatim>\<open>cloneState(state)\<close> after \<^verbatim>\<open>applyMovePure\<close>; the helpers that
  mutate the caller's position restore it, so the position itself is passed by value.
\<close>

type_synonym 'a result = "('a \<times> env) option"

type_synonym qsearch = "env \<Rightarrow> state \<Rightarrow> jsnum \<Rightarrow> jsnum \<Rightarrow> jsnum result"

fun qLoopMax :: "qsearch \<Rightarrow> state \<Rightarrow> ann list \<Rightarrow> env \<Rightarrow> jsnum \<Rightarrow> jsnum \<Rightarrow> jsnum result" where
  "qLoopMax recur st [] e alpha beta = Some (alpha, e)"
| "qLoopMax recur st (m # ms) e alpha beta =
     (case recur e (applyMovePure (cloneState st) (mfrom m) (mto m)) alpha beta of
        None \<Rightarrow> None
      | Some (v, e') \<Rightarrow>
          let alpha' = (if num_lt alpha v then v else alpha)
          in if num_le beta alpha' then Some (alpha', e')
             else qLoopMax recur st ms e' alpha' beta)"

fun qLoopMin :: "qsearch \<Rightarrow> state \<Rightarrow> ann list \<Rightarrow> env \<Rightarrow> jsnum \<Rightarrow> jsnum \<Rightarrow> jsnum result" where
  "qLoopMin recur st [] e alpha beta = Some (beta, e)"
| "qLoopMin recur st (m # ms) e alpha beta =
     (case recur e (applyMovePure (cloneState st) (mfrom m) (mto m)) alpha beta of
        None \<Rightarrow> None
      | Some (v, e') \<Rightarrow>
          let beta' = (if num_lt v beta then v else beta)
          in if num_le beta' alpha then Some (beta', e')
             else qLoopMin recur st ms e' alpha beta')"

fun quiescence :: "nat \<Rightarrow> config \<Rightarrow> env \<Rightarrow> state \<Rightarrow> jsnum \<Rightarrow> jsnum \<Rightarrow> jsnum result" where
  "quiescence 0 cfg e st alpha beta = None"
| "quiescence (Suc n) cfg e st alpha beta =
     (if fiftyMoveDraw st \<or> insufficientMaterial st then Some (drawScore (turn st), e)
      else
        let sideMax = (turn st = White);
            inChk = inCheck st (turn st);
            stand = Fin (evalFn cfg st)
        in if \<not> inChk \<and> sideMax \<and> num_le beta stand then Some (stand, e)
           else if \<not> inChk \<and> \<not> sideMax \<and> num_le stand alpha then Some (stand, e)
           else
             let alpha1 = (if \<not> inChk \<and> sideMax \<and> num_lt alpha stand then stand else alpha);
                 beta1 = (if \<not> inChk \<and> \<not> sideMax \<and> num_lt stand beta then stand else beta)
             in case timeExpired e of
                  (expired, e1) \<Rightarrow>
                    if expired then Some (stand, e1)
                    else
                      let moves = allLegalMoves st (turn st);
                          moves' = (if \<not> inChk then filter (\<lambda>(f, t). isCapture st f t) moves
                                    else moves)
                      in if \<not> inChk \<and> moves' = [] then Some (stand, e1)
                         else
                           let sideIdx = (if turn st = White then 0 else 1);
                               anns = annotateMoves e1 st moves' None sideIdx 0 True
                           in if sideMax
                              then qLoopMax (quiescence n cfg) st anns e1 alpha1 beta1
                              else qLoopMin (quiescence n cfg) st anns e1 alpha1 beta1)"

type_synonym absearch = "env \<Rightarrow> state \<Rightarrow> int \<Rightarrow> jsnum \<Rightarrow> jsnum \<Rightarrow> int \<Rightarrow> jsnum result"

text \<open>
  The move loop of the maximizing side. The loop variables are the index, \<^verbatim>\<open>alpha\<close> and
  \<^verbatim>\<open>best\<close>; the result is \<^verbatim>\<open>best\<close> when the loop is left.
\<close>

fun abLoopMax ::
  "absearch \<Rightarrow> config \<Rightarrow> state \<Rightarrow> int \<Rightarrow> int \<Rightarrow> bool \<Rightarrow> nat \<Rightarrow> jsnum \<Rightarrow>
   ann list \<Rightarrow> int \<Rightarrow> env \<Rightarrow> jsnum \<Rightarrow> jsnum \<Rightarrow> jsnum result" where
  "abLoopMax recur cfg st depth ply endgame sideIdx beta [] idx e alpha best = Some (best, e)"
| "abLoopMax recur cfg st depth ply endgame sideIdx beta (m # ms) idx e alpha best =
     (case timeExpired e of
        (expired, e1) \<Rightarrow>
          if expired then Some (best, e1)
          else if \<not> endgame \<and> depth \<le> 3 \<and> quiet m \<and> idx \<ge> 8 then
            abLoopMax recur cfg st depth ply endgame sideIdx beta ms (idx + 1) e1 alpha best
          else if \<not> endgame \<and> depth = 1 \<and> quiet m \<and> \<not> inCheck st (turn st)
                  \<and> num_le (Fin (evalFn cfg st + 250)) alpha then
            abLoopMax recur cfg st depth ply endgame sideIdx beta ms (idx + 1) e1 alpha best
          else
            let cs = applyMovePure (cloneState st) (mfrom m) (mto m);
                searched =
                  (if \<not> endgame \<and> depth \<ge> 4 \<and> quiet m \<and> idx \<ge> 6 \<and> ply < MAX_PLY - 1 then
                     (case recur e1 cs (depth - 1 - (if idx \<ge> 10 then 2 else 1))
                             (num_add alpha 1) (num_add alpha 1) (ply + 1) of
                        None \<Rightarrow> None
                      | Some (v, e2) \<Rightarrow>
                          if num_lt alpha v then
                            (case timeExpired e2 of
                               (expired2, e3) \<Rightarrow>
                                 if \<not> expired2 then recur e3 cs (depth - 1) alpha beta (ply + 1)
                                 else Some (v, e3))
                          else Some (v, e2))
                   else recur e1 cs (depth - 1) alpha beta (ply + 1))
            in case searched of
                 None \<Rightarrow> None
               | Some (v, e4) \<Rightarrow>
                   let best' = (if num_lt best v then v else best);
                       alpha' = (if num_lt alpha v then v else alpha)
                   in if num_le beta alpha' then
                        Some (best',
                              if quiet m
                              then bumpHistory (addKiller e4 ply (mkey m)) sideIdx (mfrom m) (mto m) depth
                              else e4)
                      else abLoopMax recur cfg st depth ply endgame sideIdx beta ms (idx + 1)
                             e4 alpha' best')"

fun abLoopMin ::
  "absearch \<Rightarrow> config \<Rightarrow> state \<Rightarrow> int \<Rightarrow> int \<Rightarrow> bool \<Rightarrow> nat \<Rightarrow> jsnum \<Rightarrow>
   ann list \<Rightarrow> int \<Rightarrow> env \<Rightarrow> jsnum \<Rightarrow> jsnum \<Rightarrow> jsnum result" where
  "abLoopMin recur cfg st depth ply endgame sideIdx alpha [] idx e beta best = Some (best, e)"
| "abLoopMin recur cfg st depth ply endgame sideIdx alpha (m # ms) idx e beta best =
     (case timeExpired e of
        (expired, e1) \<Rightarrow>
          if expired then Some (best, e1)
          else if \<not> endgame \<and> depth \<le> 3 \<and> quiet m \<and> idx \<ge> 8 then
            abLoopMin recur cfg st depth ply endgame sideIdx alpha ms (idx + 1) e1 beta best
          else if \<not> endgame \<and> depth = 1 \<and> quiet m \<and> \<not> inCheck st (turn st)
                  \<and> num_le beta (Fin (evalFn cfg st - 250)) then
            abLoopMin recur cfg st depth ply endgame sideIdx alpha ms (idx + 1) e1 beta best
          else
            let cs = applyMovePure (cloneState st) (mfrom m) (mto m);
                searched =
                  (if \<not> endgame \<and> depth \<ge> 4 \<and> quiet m \<and> idx \<ge> 6 \<and> ply < MAX_PLY - 1 then
                     (case recur e1 cs (depth - 1 - (if idx \<ge> 10 then 2 else 1))
                             (num_add beta (- 1)) (num_add beta (- 1)) (ply + 1) of
                        None \<Rightarrow> None
                      | Some (v, e2) \<Rightarrow>
                          if num_lt v beta then
                            (case timeExpired e2 of
                               (expired2, e3) \<Rightarrow>
                                 if \<not> expired2 then recur e3 cs (depth - 1) alpha beta (ply + 1)
                                 else Some (v, e3))
                          else Some (v, e2))
                   else recur e1 cs (depth - 1) alpha beta (ply + 1))
            in case searched of
                 None \<Rightarrow> None
               | Some (v, e4) \<Rightarrow>
                   let best' = (if num_lt v best then v else best);
                       beta' = (if num_lt v beta then v else beta)
                   in if num_le beta' alpha then
                        Some (best',
                              if quiet m
                              then bumpHistory (addKiller e4 ply (mkey m)) sideIdx (mfrom m) (mto m) depth
                              else e4)
                      else abLoopMin recur cfg st depth ply endgame sideIdx alpha ms (idx + 1)
                             e4 beta' best')"

text \<open>
  The transposition-table step of \<^verbatim>\<open>alphaBeta\<close>: either the stored score is returned at
  once (\<open>Inl\<close>), or the search goes on with a possibly narrowed window and the stored
  best-move hint (\<open>Inr\<close>). An entry that carries only the hint has no \<^verbatim>\<open>flag\<close> and no
  \<^verbatim>\<open>score\<close>.
\<close>

definition ttStep :: "probe \<Rightarrow> jsnum \<Rightarrow> jsnum \<Rightarrow> jsnum + (jsnum \<times> jsnum \<times> move option)" where
  "ttStep entry alpha beta =
     (case entry of
        Miss \<Rightarrow> Inr (alpha, beta, None)
      | Full en \<Rightarrow>
          if e_flag en = EXACT then Inl (e_score en)
          else
            let alpha' = (if e_flag en = LOWER then num_max alpha (e_score en) else alpha);
                beta' = (if e_flag en = LOWER then beta
                         else if e_flag en = UPPER then num_min beta (e_score en) else beta)
            in if num_le beta' alpha' then Inl (e_score en)
               else Inr (alpha', beta', e_bestMove en)
      | HintOnly bm \<Rightarrow>
          if num_le beta alpha then Inl Undef else Inr (alpha, beta, bm))"

fun alphaBeta ::
  "nat \<Rightarrow> config \<Rightarrow> env \<Rightarrow> state \<Rightarrow> int \<Rightarrow> jsnum \<Rightarrow> jsnum \<Rightarrow> int \<Rightarrow> jsnum result" where
  "alphaBeta 0 cfg e st depth alpha beta ply = None"
| "alphaBeta (Suc n) cfg e st depth alpha beta ply =
     (if fiftyMoveDraw st \<or> insufficientMaterial st then Some (drawScore (turn st), e)
      else
        let key = keyOf (zob cfg) st;
            seen = toInt32 (rep e key)
        in if seen \<ge> 2 then Some (drawScore (turn st), e)
           else
             let endgame = endgamePhase st in
             case timeExpired (setRep e key (seen + 1)) of
               (expired, e1) \<Rightarrow>
                 if expired then quiescence n cfg (setRep e1 key seen) st alpha beta
                 else if depth = 0 then quiescence n cfg (setRep e1 key seen) st alpha beta
                 else
                   let maximizing = (turn st = White);
                       moves0 = allLegalMoves st (turn st)
                   in case terminalScoreGivenMoves st moves0 depth of
                        Some term \<Rightarrow> Some (term, setRep e1 key seen)
                      | None \<Rightarrow>
                          (case
                             (if \<not> endgame \<and> depth \<ge> 3 \<and> \<not> inCheck st (turn st)
                                 \<and> hasNonPawnMaterial st (turn st)
                                 \<and> num_le beta (Fin (evalFn cfg st))
                              then
                                (case alphaBeta n cfg e1 (makeNullMove st)
                                        (depth - 1 - (if depth \<ge> 6 then 3 else 2))
                                        (num_add beta (- 1)) beta (ply + 1) of
                                   None \<Rightarrow> None
                                 | Some (nullScore, e2) \<Rightarrow>
                                     Some (if num_le beta nullScore then Some nullScore else None, e2))
                              else Some (None, e1)) of
                             None \<Rightarrow> None
                           | Some (Some nullScore, e2) \<Rightarrow> Some (nullScore, setRep e2 key seen)
                           | Some (None, e2) \<Rightarrow>
                               (case ttStep (ttProbe (ttable e2) key depth) alpha beta of
                                  Inl sc \<Rightarrow> Some (sc, setRep e2 key seen)
                                | Inr (alpha', beta', ttBest) \<Rightarrow>
                                    let sideIdx = (if turn st = White then 0 else 1);
                                        scored = annotateMoves e2 st moves0 ttBest sideIdx ply
                                                   (depth \<le> 3);
                                        looped =
                                          (if maximizing then
                                             abLoopMax
                                               (alphaBeta n cfg)
                                               cfg st depth ply endgame sideIdx beta'
                                               scored 0 e2 alpha' (Fin (- MATE))
                                           else
                                             abLoopMin
                                               (alphaBeta n cfg)
                                               cfg st depth ply endgame sideIdx alpha'
                                               scored 0 e2 beta' (Fin MATE))
                                    in case looped of
                                         None \<Rightarrow> None
                                       | Some (best, e3) \<Rightarrow>
                                           let fl = (if num_le best alpha then UPPER
                                                     else if num_le beta best then LOWER
                                                     else EXACT);
                                               hint = (case scored of
                                                         [] \<Rightarrow> None
                                                       | a # _ \<Rightarrow> Some (mfrom a, mto a));
                                               e4 = e3 \<lparr> ttable :=
                                                      ttStore (ttable e3) key depth fl best hint \<rparr>
                                           in Some (best, setRep e4 key seen))))"

section \<open>Root driver (\<^verbatim>\<open>pickMove\<close> of \<^verbatim>\<open>src/ai/search.js\<close>)\<close>

text \<open>
  The persistent hint cache (\<^verbatim>\<open>localStorage\<close>) and the sample logger are external
  collaborators: the move hint read from the cache is the input \<open>bookHint\<close>, and the final
  writes to the cache and to the logger are not part of the model. \<open>timeMs\<close> is \<open>None\<close> for
  \<^verbatim>\<open>null\<close>.
\<close>

definition ROOT_CHUNK :: nat where
  "ROOT_CHUNK = 10"

definition GUARD_MS :: int where
  "GUARD_MS = 140"

definition ASP_WIDE :: int where
  "ASP_WIDE = 200"

text \<open>
  The body of \<^verbatim>\<open>for (let i = 0; i < limit; i++)\<close>, run over the first \<^verbatim>\<open>limit\<close> root moves.
  The loop variables are \<^verbatim>\<open>localBestMove\<close> and \<^verbatim>\<open>localBestScore\<close>.
\<close>

fun rootLoop ::
  "absearch \<Rightarrow> state \<Rightarrow> color \<Rightarrow> int option \<Rightarrow> int \<Rightarrow> jsnum \<Rightarrow> jsnum \<Rightarrow>
   move list \<Rightarrow> env \<Rightarrow> move option \<Rightarrow> jsnum \<Rightarrow> (move option \<times> jsnum) result" where
  "rootLoop recur st player timeMs d alphaWin betaWin [] e lbm lbs = Some ((lbm, lbs), e)"
| "rootLoop recur st player timeMs d alphaWin betaWin (m # ms) e lbm lbs =
     (case (if timeMs \<noteq> None then timeExpired e else (False, e)) of
        (expired, e1) \<Rightarrow>
          if expired then Some ((lbm, lbs), e1)
          else
            case (if timeMs \<noteq> None
                  then (case dateNow e1 of
                          (now, e') \<Rightarrow> (num_lt (num_add (deadline e') (- now)) (Fin GUARD_MS), e'))
                  else (False, e1)) of
              (guarded, e2) \<Rightarrow>
                if guarded then Some ((lbm, lbs), e2)
                else
                  let cs = applyMovePure (cloneState st) (fst m) (snd m) in
                  case recur e2 cs (d - 1) alphaWin betaWin 1 of
                    None \<Rightarrow> None
                  | Some (score0, e3) \<Rightarrow>
                      (case (if timeMs \<noteq> None then
                               (case timeExpired e3 of
                                  (expired3, e4) \<Rightarrow>
                                    if \<not> expired3
                                       \<and> (num_le score0 alphaWin \<or> num_le betaWin score0)
                                    then recur e4 cs (d - 1) NegInf PosInf 1
                                    else Some (score0, e4))
                             else Some (score0, e3)) of
                         None \<Rightarrow> None
                       | Some (score, e5) \<Rightarrow>
                           if (if player = White then num_lt lbs score else num_lt score lbs)
                           then rootLoop recur st player timeMs d alphaWin betaWin ms e5
                                  (Some m) score
                           else rootLoop recur st player timeMs d alphaWin betaWin ms e5
                                  lbm lbs))"

text \<open>
  \<^verbatim>\<open>moves.sort(...)\<close> with the comparator that puts the best move before every other move
  and leaves the others equal: a stable sort brings the best move to the front.
\<close>

definition pvFirst :: "move \<Rightarrow> move list \<Rightarrow> move list" where
  "pvFirst best moves = filter (\<lambda>m. m = best) moves @ filter (\<lambda>m. m \<noteq> best) moves"

fun num_abs :: "jsnum \<Rightarrow> jsnum" where
  "num_abs (Fin a) = Fin \<bar>a\<bar>"
| "num_abs NegInf = PosInf"
| "num_abs x = x"

record rootVars =
  rv_moves :: "move list"
  rv_bestMove :: "move option"
  rv_bestScore :: jsnum
  rv_lastScore :: jsnum
  rv_finishedDepth :: int

text \<open>The loop \<^verbatim>\<open>for (let d = 1; d <= maxDepth; d++)\<close>, over the list of depths still to run.\<close>

fun depthLoop ::
  "absearch \<Rightarrow> state \<Rightarrow> color \<Rightarrow> int option \<Rightarrow> int list \<Rightarrow> env \<Rightarrow> rootVars \<Rightarrow>
   rootVars result" where
  "depthLoop recur st player timeMs [] e rv = Some (rv, e)"
| "depthLoop recur st player timeMs (d # ds) e rv =
     (case (if timeMs \<noteq> None then timeExpired e else (False, e)) of
        (expired, e1) \<Rightarrow>
          if expired then Some (rv, e1)
          else
            let aspirate = (d \<ge> 5 \<and> isFinite (rv_lastScore rv));
                alphaWin = (if aspirate then num_add (rv_lastScore rv) (- ASP_WIDE) else NegInf);
                betaWin = (if aspirate then num_add (rv_lastScore rv) ASP_WIDE else PosInf);
                limit = min (length (rv_moves rv)) ROOT_CHUNK
            in case rootLoop recur st player timeMs d alphaWin betaWin
                      (take limit (rv_moves rv)) e1 None
                      (if player = White then Fin (- MATE) else Fin MATE) of
                 None \<Rightarrow> None
               | Some ((lbm, lbs), e2) \<Rightarrow>
                   (case (if timeMs \<noteq> None then timeExpired e2 else (False, e2)) of
                      (expired2, e3) \<Rightarrow>
                        if expired2 then Some (rv, e3)
                        else
                          case lbm of
                            None \<Rightarrow> depthLoop recur st player timeMs ds e3 rv
                          | Some best \<Rightarrow>
                              let rv' = \<lparr> rv_moves = pvFirst best (rv_moves rv),
                                          rv_bestMove = Some best, rv_bestScore = lbs,
                                          rv_lastScore = lbs, rv_finishedDepth = d \<rparr>
                              in if num_lt (Fin 99000) (num_abs lbs) then Some (rv', e3)
                                 else depthLoop recur st player timeMs ds e3 rv'))"

definition finiteScore :: "jsnum \<Rightarrow> jsnum" where
  "finiteScore v = (if isFinite v then v else Fin 0)"

record picked =
  p_from :: int
  p_to :: int
  p_score :: jsnum

definition resetKillers :: "env \<Rightarrow> int \<Rightarrow> env" where
  "resetKillers e maxDepth =
     e \<lparr> killers := (\<lambda>p. if 0 \<le> p \<and> p < min MAX_PLY (maxDepth + 4) then (-1, -1)
                          else killers e p) \<rparr>"

definition nth_opt :: "'a list \<Rightarrow> nat \<Rightarrow> 'a option" where
  "nth_opt xs i = (if i < length xs then Some (xs ! i) else None)"

definition pickMove ::
  "nat \<Rightarrow> config \<Rightarrow> env \<Rightarrow> state \<Rightarrow> int \<Rightarrow> int option \<Rightarrow> move option \<Rightarrow> picked option result" where
  "pickMove fuel cfg e st maxDepth timeMs bookHint =
     (let prevDeadline = deadline e;
          e0 = (case timeMs of
                  None \<Rightarrow> e \<lparr> deadline := PosInf \<rparr>
                | Some ms \<Rightarrow>
                    (case dateNow e of (now, e') \<Rightarrow> e' \<lparr> deadline := Fin (now + max 50 ms) \<rparr>));
          player = turn st;
          moves = allLegalMoves st player
      in if moves = [] then Some (None, e0 \<lparr> deadline := prevDeadline \<rparr>)
         else
           let ttHint = (case ttProbe (ttable e0) (keyOf (zob cfg) st) 0 of
                           Miss \<Rightarrow> None | Full en \<Rightarrow> e_bestMove en | HintOnly bm \<Rightarrow> bm);
               hint = (if ttHint \<noteq> None then ttHint else bookHint);
               sideIdx = (if player = White then 0 else 1);
               annotated = annotateMoves e0 st moves hint sideIdx 0 True;
               ordered = map (\<lambda>a. (mfrom a, mto a)) annotated;
               rv0 = \<lparr> rv_moves = ordered, rv_bestMove = nth_opt ordered 0,
                       rv_bestScore = (if player = White then Fin (- MATE) else Fin MATE),
                       rv_lastScore = Fin 0, rv_finishedDepth = 0 \<rparr>;
               e1 = resetKillers e0 maxDepth;
               e2 = e1 \<lparr> rep := (\<lambda>_. 0)(keyOf (zob cfg) st := 1) \<rparr>
           in case depthLoop (alphaBeta fuel cfg)
                     st player timeMs [1..maxDepth] e2 rv0 of
                None \<Rightarrow> None
              | Some (rv, e3) \<Rightarrow>
                  (case (if \<not> isFinite (rv_bestScore rv)
                         then (case quiescence fuel cfg e3 st NegInf PosInf of
                                 None \<Rightarrow> None
                               | Some (q, e4) \<Rightarrow> Some (finiteScore q, e4))
                         else Some (rv_bestScore rv, e3)) of
                     None \<Rightarrow> None
                   | Some (uiScore, e5) \<Rightarrow>
                       Some (case rv_bestMove rv of
                               None \<Rightarrow> None
                             | Some (f, t) \<Rightarrow> Some \<lparr> p_from = f, p_to = t, p_score = uiScore \<rparr>,
                             e5 \<lparr> deadline := prevDeadline \<rparr>)))"

section \<open>Example positions\<close>

definition playMoves :: "state \<Rightarrow> move list \<Rightarrow> state" where
  "playMoves st ms = foldl (\<lambda>s (from, to). applyMovePure s from to) st ms"

text \<open>After 1. e4: the en-passant square e3 (index 44) that no black pawn can consume.\<close>

definition afterE4 :: state where
  "afterE4 = playMoves initialState [(52, 36)]"

text \<open>After 1. e4 a6 2. e5 d5: White's pawn on e5 can capture on d6 (index 19).\<close>

definition afterD5 :: state where
  "afterD5 = playMoves initialState [(52, 36), (8, 16), (36, 28), (11, 27)]"

definition exampleZobrist :: zobrist where
  "exampleZobrist = \<lparr>
     pieces = (\<lambda>ci ti i. word_of_nat (1 + ci * 384 + ti * 64 + nat i)),
     castle = (\<lambda>k. word_of_nat (1000 + k)),
     epFile = (\<lambda>f. word_of_int (2000 + f)),
     sideToMove = 3000 \<rparr>"

definition exampleConfig :: config where
  "exampleConfig = \<lparr> zob = exampleZobrist, evalFn = (\<lambda>_. 0) \<rparr>"

text \<open>
  A fresh engine: no deadline, a clock that advances one millisecond per reading, empty
  killer, history and transposition tables, no repetitions recorded.
\<close>

definition freshEnv :: env where
  "freshEnv = \<lparr> deadline = PosInf, clock = (\<lambda>n. int n), reads = 0,
                killers = (\<lambda>_. (-1, -1)), history = (\<lambda>_ _ _. 0),
                ttable = ttInit 18, rep = (\<lambda>_. 0) \<rparr>"

text \<open>King and bishop against king and knight, White to move.\<close>

definition emptyBoard :: board where
  "emptyBoard = (\<lambda>_. None)"



text \<open>
  White king on e1 and bishop on e2, pinned by a black rook on e8; black king on h8.
  White to move.
\<close>

definition pinnedBishop :: state where
  "pinnedBishop = \<lparr> board = emptyBoard(60 := Some (Piece White King),
                                52 := Some (Piece White Bishop),
                                4 := Some (Piece Black Rook), 7 := Some (Piece Black King)),
              turn = White, castleRight = [], ep = None, halfmove = 0, fullmove = 1 \<rparr>"

text \<open>
  White is checkmated: king on f1, black queen on f2 protected by the black king on f3
  (FEN \<^verbatim>\<open>8/8/8/8/8/5k2/5q2/5K2 w - - 0 1\<close>).
\<close>

definition mated :: state where
  "mated = \<lparr> board = emptyBoard(61 := Some (Piece White King), 53 := Some (Piece Black Queen),
                                45 := Some (Piece Black King)),
             turn = White, castleRight = [], ep = None, halfmove = 0, fullmove = 1 \<rparr>"

text \<open>
  White is stalemated: king on h1, black queen on g3, black king on a8
  (FEN \<^verbatim>\<open>k7/8/8/8/8/6q1/8/7K w - - 0 1\<close>).
\<close>

definition stalemated :: state where
  "stalemated = \<lparr> board = emptyBoard(63 := Some (Piece White King), 46 := Some (Piece Black Queen),
                                     0 := Some (Piece Black King)),
                  turn = White, castleRight = [], ep = None, halfmove = 0, fullmove = 1 \<rparr>"

section \<open>The spec's list of insufficient material\<close>

text \<open>
  The insufficient-material positions as the spec lists them (both kings are on the board
  by data-model invariant 1): no pawns, rooks or queens remain, and the minor pieces are
  none (K vs K), a single one (K + minor vs K), one bishop each on squares of the same
  colour, or two knights of one side against the lone king.
\<close>

definition countPiece :: "state \<Rightarrow> color \<Rightarrow> ptype \<Rightarrow> nat" where
  "countPiece st c k = length (filter (\<lambda>i. board st i = Some (Piece c k)) squares)"




section \<open>Predicates used in the statements\<close>

text \<open>
  Data-model invariant 3 makes the en-passant target the square a pawn has just skipped
  over; in particular that square is empty.
\<close>

definition epSquareEmpty :: "state \<Rightarrow> bool" where
  "epSquareEmpty st = (case ep st of None \<Rightarrow> True | Some e \<Rightarrow> board st e = None)"

text \<open>
  Data-model invariant 1 for one colour: exactly one king of that colour is on the board.
\<close>

definition oneKing :: "state \<Rightarrow> color \<Rightarrow> bool" where
  "oneKing st c = (countPiece st c King = 1)"

text \<open>
  What the loops of \<^verbatim>\<open>allLegalMoves\<close> require of a move \<open>(a, b)\<close> they return: a piece of
  the colour stands on \<open>a\<close>, \<open>b\<close> is one of its pseudo-moves, and the do/undo check with the
  known king square passes.
\<close>

definition candidate :: "state \<Rightarrow> color \<Rightarrow> int \<Rightarrow> int \<Rightarrow> int \<Rightarrow> bool" where
  "candidate st c kingSq a b =
     ((\<exists>p. board st a = Some p \<and> pc p = c)
      \<and> b \<in> set (generateMoves st a)
      \<and> \<not> leavesKingInCheck st a b (Some kingSq))"

section \<open>Transposition table: proofs\<close>

lemma toInt32_id: "is_int32 n \<Longrightarrow> toInt32 n = n"
  unfolding toInt32_def is_int32_def
  by (simp add: sint_sbintrunc' signed_take_bit_int_eq_self)

lemma is_int32_toInt32: "is_int32 (toInt32 n)"
  unfolding toInt32_def is_int32_def
  using sint_range_size [of "word_of_int n :: 32 word"]
  by (simp add: word_size)

lemma tt_depths_ok_ttInit: "tt_depths_ok (ttInit n)"
  by (simp add: tt_depths_ok_def ttInit_def Let_def)

lemma tt_depths_ok_ttStore: "tt_depths_ok T \<Longrightarrow> tt_depths_ok (ttStore T k d fl sc bm)"
  by (auto simp: tt_depths_ok_def ttStore_def Let_def is_int32_toInt32 split: option.splits)

text \<open>
  C6. Probe contract: the full stored entry is returned exactly when the indexed slot holds
  an entry with the probe key whose depth is at least the requested depth; a key match of
  insufficient depth yields only the best-move hint; an empty slot or a different key
  yields nothing.
\<close>

theorem ttProbe_contract:
  assumes "tt_depths_ok T" and "is_int32 reqDepth"
  shows "(ttProbe T k reqDepth = Full e \<longleftrightarrow>
            table T (indexFor T k) = Some e \<and> e_key e = k \<and> e_depth e \<ge> reqDepth)
       \<and> (table T (indexFor T k) = Some e \<and> e_key e = k \<and> e_depth e < reqDepth \<longrightarrow>
            ttProbe T k reqDepth = HintOnly (e_bestMove e))
       \<and> (table T (indexFor T k) = None \<or>
            (table T (indexFor T k) = Some e \<and> e_key e \<noteq> k) \<longrightarrow>
            ttProbe T k reqDepth = Miss)"
proof -
  have d: "\<And>e'. table T (indexFor T k) = Some e' \<Longrightarrow> toInt32 (e_depth e') = e_depth e'"
    using assms(1) by (auto simp: tt_depths_ok_def intro: toInt32_id)
  have r: "toInt32 reqDepth = reqDepth"
    using assms(2) by (rule toInt32_id)
  show ?thesis
    by (cases "table T (indexFor T k)") (auto simp: ttProbe_def d r)
qed

theorem ttProbe_contract_witness:
  "tt_depths_ok (ttStore (ttInit 12) 5 3 EXACT (Fin 10) (Some (52, 36)))
   \<and> is_int32 2 \<and> is_int32 7
   \<and> ttProbe (ttStore (ttInit 12) 5 3 EXACT (Fin 10) (Some (52, 36))) 5 2
       = Full \<lparr> e_key = 5, e_depth = 3, e_flag = EXACT, e_score = Fin 10, e_bestMove = Some (52, 36) \<rparr>
   \<and> ttProbe (ttStore (ttInit 12) 5 3 EXACT (Fin 10) (Some (52, 36))) 5 7
       = HintOnly (Some (52, 36))
   \<and> ttProbe (ttStore (ttInit 12) 5 3 EXACT (Fin 10) (Some (52, 36))) 4101 2 = Miss"
proof -
  let ?T = "ttStore (ttInit 12) 5 3 EXACT (Fin 10) (Some (52, 36))"
  let ?e = "\<lparr> e_key = 5, e_depth = 3, e_flag = EXACT, e_score = Fin 10, e_bestMove = Some (52, 36) \<rparr>"
  have h1: "tt_depths_ok ?T"
    by (intro tt_depths_ok_ttStore tt_depths_ok_ttInit)
  have h2: "is_int32 2" and h7: "is_int32 7"
    by (simp_all add: is_int32_def)
  have i5: "indexFor ?T 5 = 5" and i4101: "indexFor ?T 4101 = 5"
    by (simp_all add: indexFor_def ttStore_def ttInit_def Let_def)
  have slot: "table ?T 5 = Some ?e"
    by (simp add: ttStore_def ttInit_def Let_def indexFor_def toInt32_id is_int32_def)
  have a: "ttProbe ?T 5 2 = Full ?e"
    using ttProbe_contract [OF h1 h2, of 5 ?e] slot i5 by simp
  have b: "ttProbe ?T 5 7 = HintOnly (Some (52, 36))"
    using ttProbe_contract [OF h1 h7, of 5 ?e] slot i5 by simp
  have c: "ttProbe ?T 4101 2 = Miss"
    using ttProbe_contract [OF h1 h2, of 4101 ?e] slot i4101 by simp
  from h1 h2 h7 a b c show ?thesis by simp
qed

section \<open>The do/undo legality check restores the position\<close>

lemma setBoard_same: "setBoard st i (board st i) = st"
  by (simp add: setBoard_def)

lemma leavesKingInCheck_run_restores:
  "snd (leavesKingInCheck_run st from to known) = st"
proof (cases "board st from")
  case None
  then show ?thesis by (simp add: leavesKingInCheck_run_def)
next
  case (Some mover)
  have plain: "(board st)(to := Some mover, from := None, from := Some mover,
                 to := board st to) = board st"
    using Some by (intro ext) auto
  have withep: "\<And>e. (board st)(e := None, to := Some mover, from := None, from := Some mover,
                 to := board st to, e := board st e) = board st"
    using Some by (intro ext) auto
  show ?thesis
    using Some plain withep
    by (simp add: leavesKingInCheck_run_def Let_def setBoard_def)
qed

lemma leavesKingInCheck_run_eq:
  "leavesKingInCheck_run st from to known = (leavesKingInCheck st from to known, st)"
  by (simp add: leavesKingInCheck_def prod_eq_iff leavesKingInCheck_run_restores)

lemma filterLegal_eq:
  "filterLegal i kingSq keep tos st moves =
     (st, moves @ map (Pair i)
        (filter (\<lambda>to. keep to \<and> \<not> leavesKingInCheck st i to (Some kingSq)) tos))"
  by (induction tos arbitrary: moves) (simp_all add: leavesKingInCheck_run_eq)

lemma doubleCheckLoop_state: "fst (doubleCheckLoop c kingSq is st moves) = st"
  by (induction "is") (simp_all add: filterLegal_eq)

lemma mainLoop_state: "fst (mainLoop c kingSq single checkerSq blockSquares pins is st moves) = st"
  by (induction "is" arbitrary: moves) (simp_all add: filterLegal_eq Let_def split: option.splits)

lemma allLegalMoves_run_eq: "allLegalMoves_run st c = (st, allLegalMoves st c)"
  by (simp add: allLegalMoves_def prod_eq_iff allLegalMoves_run_def Let_def
      doubleCheckLoop_state mainLoop_state)

lemma generateMoves_King: "holds st a c King \<Longrightarrow> generateMoves st a = kingMoves st a"
  by (auto simp: holds_def generateMoves_def split: option.splits)

lemma doubleCheckLoop_members:
  "(a, b) \<in> set (snd (doubleCheckLoop c kingSq is st moves)) \<Longrightarrow>
     (a, b) \<in> set moves \<or> (a \<in> set is \<and> candidate st c kingSq a b)"
proof (induction "is")
  case Nil
  then show ?case by simp
next
  case (Cons i "is")
  show ?case
  proof (cases "holds st i c King")
    case True
    then have "\<exists>p. board st i = Some p \<and> pc p = c"
      by (auto simp: holds_def split: option.splits)
    with True Cons.prems show ?thesis
      by (auto simp: filterLegal_eq candidate_def generateMoves_King)
  next
    case False
    with Cons show ?thesis by auto
  qed
qed

lemma mainLoop_members:
  "(a, b) \<in> set (snd (mainLoop c kingSq single checkerSq blockSquares pins is st moves)) \<Longrightarrow>
     (a, b) \<in> set moves \<or> (a \<in> set is \<and> candidate st c kingSq a b)"
proof (induction "is" arbitrary: moves)
  case Nil
  then show ?case by simp
next
  case (Cons i "is")
  show ?case
  proof (cases "board st i")
    case None
    with Cons show ?thesis by auto
  next
    case (Some p)
    show ?thesis
    proof (cases "pc p = c")
      case False
      with Some Cons show ?thesis by auto
    next
      case True
      show ?thesis
        using Cons.prems Some True
        apply (simp add: filterLegal_eq Let_def)
        apply (drule Cons.IH)
        apply (auto simp: candidate_def)
        done
    qed
  qed
qed

lemma allLegalMoves_members:
  "(a, b) \<in> set (allLegalMoves st c) \<Longrightarrow>
     findKing st c \<noteq> -1 \<and> a \<in> set squares \<and> candidate st c (findKing st c) a b"
  unfolding allLegalMoves_def allLegalMoves_run_def Let_def
  by (auto split: if_splits dest!: doubleCheckLoop_members mainLoop_members)


lemma squares_iff: "a \<in> set squares \<longleftrightarrow> 0 \<le> a \<and> a \<le> 63"
  by (simp add: squares_def)

lemma fileOf_range: "0 \<le> a \<Longrightarrow> 0 \<le> fileOf a \<and> fileOf a < 8"
  by (simp add: fileOf_def jsrem_def)

lemma fileOf_toIndex: "0 \<le> r \<Longrightarrow> 0 \<le> f \<Longrightarrow> f < 8 \<Longrightarrow> fileOf (toIndex r f) = f"
  by (simp add: fileOf_def jsrem_def toIndex_def)

lemma rankOf_toIndex: "0 \<le> f \<Longrightarrow> f < 8 \<Longrightarrow> rankOf (toIndex r f) = r"
  by (simp add: rankOf_def toIndex_def)

lemma not_blocked_iff:
  "\<not> blocked st c b \<longleftrightarrow> (\<forall>q. board st b = Some q \<longrightarrow> pc q \<noteq> c)"
  by (auto simp: blocked_def split: option.splits)

lemma stepTargets_free: "b \<in> set (stepTargets st c r f deltas) \<Longrightarrow> \<not> blocked st c b"
  by (auto simp: stepTargets_def canLand_def blocked_def Let_def split: if_splits)

lemma rayTargets_free: "b \<in> set (rayTargets st c r f dr df ss) \<Longrightarrow> \<not> blocked st c b"
  by (induction ss) (auto simp: Let_def blocked_def split: if_splits)

lemma slideTargets_free: "b \<in> set (slideTargets st c r f deltas) \<Longrightarrow> \<not> blocked st c b"
  by (auto simp: slideTargets_def dest: rayTargets_free)

lemma pawnMoves_free:
  assumes "board st i = Some p" and "epSquareEmpty st" and "b \<in> set (pawnMoves st i)"
  shows "\<not> blocked st (pc p) b"
  using assms
  by (auto simp: pawnMoves_def Let_def blocked_def epSquareEmpty_def
      split: if_splits option.splits)

lemma generateMoves_free:
  assumes "board st i = Some p" and "pt p \<noteq> King" and "epSquareEmpty st"
    and "b \<in> set (generateMoves st i)"
  shows "\<not> blocked st (pc p) b"
proof (cases "pt p")
  case Pawn
  with assms show ?thesis by (auto simp: generateMoves_def dest: pawnMoves_free)
next
  case Knight
  with assms show ?thesis
    by (auto simp: generateMoves_def knightMoves_def dest: stepTargets_free)
next
  case Bishop
  with assms show ?thesis
    by (auto simp: generateMoves_def bishopMoves_def dest: slideTargets_free)
next
  case Rook
  with assms show ?thesis
    by (auto simp: generateMoves_def rookMoves_def dest: slideTargets_free)
next
  case Queen
  with assms show ?thesis
    by (auto simp: generateMoves_def queenMoves_def dest: slideTargets_free)
next
  case King
  with assms show ?thesis by simp
qed

text \<open>A pawn move to the empty en-passant square on another file is the en-passant branch.\<close>

lemma pawnMoves_ep_victim:
  assumes "board st i = Some p" and "pt p = Pawn" and "0 \<le> i"
    and "b \<in> set (pawnMoves st i)" and "ep st = Some b"
    and "fileOf i \<noteq> fileOf b" and "board st b = None"
  shows "holds st (toIndex (rankOf b - (if pc p = White then -1 else 1)) (fileOf b))
           (other (pc p)) Pawn"
proof -
  let ?f = "fileOf i" and ?r = "rankOf i"
  let ?dir = "if pc p = White then -1 else 1 :: int"
  have fr: "0 \<le> ?f" "?f < 8" using fileOf_range [OF assms(3)] by simp_all
  have push1: "onBoard (?r + ?dir) ?f \<Longrightarrow> fileOf (toIndex (?r + ?dir) ?f) = ?f"
    using fr by (intro fileOf_toIndex) (auto simp: onBoard_def)
  have push2: "?r = (if pc p = White then 6 else 1) \<Longrightarrow> fileOf (toIndex (?r + 2 * ?dir) ?f) = ?f"
    using fr by (intro fileOf_toIndex) (auto split: if_splits)
  from assms(4) assms(1,2,5,6,7) push1 push2 show ?thesis
    by (auto simp: pawnMoves_def Let_def split: if_splits option.splits)
qed

lemma holds_setBoard:
  "holds (setBoard st i v) j c k =
     (if j = i then (case v of None \<Rightarrow> False | Some q \<Rightarrow> pc q = c \<and> pt q = k)
      else holds st j c k)"
  by (simp add: holds_def setBoard_def)

lemma findKingFrom_cong:
  "(\<And>j. j \<in> set xs \<Longrightarrow> holds st' j c King = holds st j c King) \<Longrightarrow>
     findKingFrom st' c xs = findKingFrom st c xs"
  by (induction xs) auto


lemma findKing_after_move:
  assumes "board st i = Some p" and "pt p \<noteq> King" and "\<not> blocked st (pc p) b"
  shows "findKing (setBoard (setBoard st b (Some p)) i None) (pc p) = findKing st (pc p)"
  unfolding findKing_def
  using assms
  by (intro findKingFrom_cong, simp add: holds_setBoard)
     (auto simp: holds_def blocked_def split: option.splits)

lemma findKing_after_ep:
  assumes "board st i = Some p" and "pt p \<noteq> King" and "\<not> blocked st (pc p) b"
    and "holds st e (other (pc p)) Pawn"
  shows "findKing (setBoard (setBoard (setBoard st e None) b (Some p)) i None) (pc p)
           = findKing st (pc p)"
  unfolding findKing_def
  using assms
  by (intro findKingFrom_cong, simp add: holds_setBoard)
     (auto simp: holds_def blocked_def split: option.splits)

lemma leavesKingInCheck_known:
  assumes "board st i = Some p" and "0 \<le> i" and "epSquareEmpty st"
    and "b \<in> set (generateMoves st i)"
  shows "leavesKingInCheck st i b None
           = leavesKingInCheck st i b (Some (findKing st (pc p)))"
proof (cases "pt p = King")
  case True
  with assms(1) show ?thesis
    by (simp add: leavesKingInCheck_def leavesKingInCheck_run_def Let_def)
next
  case False
  have free: "\<not> blocked st (pc p) b"
    using generateMoves_free [OF assms(1) False assms(3,4)] .
  have plain: "findKing (setBoard (setBoard st b (Some p)) i None) (pc p) = findKing st (pc p)"
    using findKing_after_move [OF assms(1) False free] .
  show ?thesis
  proof (cases "pt p = Pawn \<and> Some b = ep st \<and> fileOf i \<noteq> fileOf b \<and> board st b = None")
    case isEP: True
    let ?e = "toIndex (rankOf b - (if pc p = White then -1 else 1)) (fileOf b)"
    have pm: "b \<in> set (pawnMoves st i)"
      using assms(1,4) isEP by (simp add: generateMoves_def)
    have victim: "holds st ?e (other (pc p)) Pawn"
      using pawnMoves_ep_victim [OF assms(1) _ assms(2) pm] isEP by simp
    have "findKing (setBoard (setBoard (setBoard st ?e None) b (Some p)) i None) (pc p)
            = findKing st (pc p)"
      using findKing_after_ep [OF assms(1) False free victim] .
    with assms(1) False isEP plain show ?thesis
      by (simp add: leavesKingInCheck_def leavesKingInCheck_run_def Let_def)
  next
    case notEP: False
    with assms(1) False plain show ?thesis
      by (auto simp: leavesKingInCheck_def leavesKingInCheck_run_def Let_def)
  qed
qed

text \<open>
  C10. The do/undo legality check is side-effect free: after
  \<^verbatim>\<open>leavesKingInCheck(state, from, to, knownKingSq)\<close> returns, the board holds at every
  index what it held before the call (an en-passant victim included), and the side to
  move, the castling rights, the en-passant square and both clocks are unchanged.
\<close>

theorem leavesKingInCheck_side_effect_free:
  "board (snd (leavesKingInCheck_run st from to known)) = board st
   \<and> turn (snd (leavesKingInCheck_run st from to known)) = turn st
   \<and> castleRight (snd (leavesKingInCheck_run st from to known)) = castleRight st
   \<and> ep (snd (leavesKingInCheck_run st from to known)) = ep st
   \<and> halfmove (snd (leavesKingInCheck_run st from to known)) = halfmove st
   \<and> fullmove (snd (leavesKingInCheck_run st from to known)) = fullmove st"
  by (simp add: leavesKingInCheck_run_restores)

section \<open>Zobrist hashing: en-passant neutrality\<close>

lemma holds_iff: "holds st i c k \<longleftrightarrow> board st i = Some (Piece c k)"
  by (cases "board st i") (auto simp: holds_def intro: piece.expand)

lemma epFileIndexEffective_None: "ep st = None \<Longrightarrow> epFileIndexEffective st = -1"
  by (simp add: epFileIndexEffective_def)

lemma epFileIndexEffective_Some:
  "ep st = Some e \<Longrightarrow>
     epFileIndexEffective st = (if epConsumable st e then fileOf e else -1)"
  by (auto simp: epFileIndexEffective_def epConsumable_def Let_def holds_iff)

lemma epConsumable_ep_update [simp]: "epConsumable (st \<lparr> ep := x \<rparr>) e = epConsumable st e"
  by (simp add: epConsumable_def)

lemma pieceKeys_ep_update [simp]: "pieceKeys Z (st \<lparr> ep := x \<rparr>) is h = pieceKeys Z st is h"
  by (induction "is" arbitrary: h) simp_all

text \<open>
  C7. Zobrist en-passant neutrality: \<^verbatim>\<open>computeKey\<close> takes the en-passant file into the key
  only if a pawn of the side to move can consume the en-passant square; hence a position
  carrying an en-passant square that no such pawn can consume has the same key as the
  position that differs from it only in carrying no en-passant square (and as any other
  position differing only in such a square).
\<close>

theorem computeKey_ep_neutral:
  "(epFileIndexEffective st \<ge> 0 \<longrightarrow> (\<exists>e. ep st = Some e \<and> epConsumable st e))
   \<and> (\<not> epConsumable st e \<longrightarrow>
        computeKey ZOB (st \<lparr> ep := Some e \<rparr>) = computeKey ZOB (st \<lparr> ep := None \<rparr>))
   \<and> (\<not> epConsumable st e \<and> \<not> epConsumable st e' \<longrightarrow>
        computeKey ZOB (st \<lparr> ep := Some e \<rparr>) = computeKey ZOB (st \<lparr> ep := Some e' \<rparr>))"
proof -
  have a: "epFileIndexEffective st \<ge> 0 \<longrightarrow> (\<exists>e. ep st = Some e \<and> epConsumable st e)"
    by (cases "ep st") (auto simp: epFileIndexEffective_None epFileIndexEffective_Some
        split: if_splits)
  have stale: "\<And>x. \<not> epConsumable st x \<Longrightarrow> epFileIndexEffective (st \<lparr> ep := Some x \<rparr>) = -1"
    by (simp add: epFileIndexEffective_Some)
  have none: "epFileIndexEffective (st \<lparr> ep := None \<rparr>) = -1"
    by (simp add: epFileIndexEffective_None)
  have k: "\<And>x. \<not> epConsumable st x \<Longrightarrow>
             keyOf Z (st \<lparr> ep := Some x \<rparr>) = keyOf Z (st \<lparr> ep := None \<rparr>)" for Z
    by (simp add: keyOf_def stale none)
  have b: "\<not> epConsumable st x \<Longrightarrow>
             computeKey ZOB (st \<lparr> ep := Some x \<rparr>) = computeKey ZOB (st \<lparr> ep := None \<rparr>)" for x
    by (cases ZOB) (simp_all add: computeKey_def k)
  from a b [of e] b [of e'] show ?thesis by simp
qed

theorem computeKey_ep_neutral_witness:
  "\<not> epConsumable afterE4 44
   \<and> computeKey (Some exampleZobrist) (afterE4 \<lparr> ep := Some 44 \<rparr>)
       = computeKey (Some exampleZobrist) (afterE4 \<lparr> ep := None \<rparr>)
   \<and> epFileIndexEffective afterD5 \<ge> 0
   \<and> ep afterD5 = Some 19 \<and> epConsumable afterD5 19"
proof -
  have stale: "\<not> epConsumable afterE4 44"
    by code_simp
  have same: "computeKey (Some exampleZobrist) (afterE4 \<lparr> ep := Some 44 \<rparr>)
       = computeKey (Some exampleZobrist) (afterE4 \<lparr> ep := None \<rparr>)"
    using computeKey_ep_neutral [of afterE4 44 "Some exampleZobrist" 44] stale by blast
  have hashed: "epFileIndexEffective afterD5 \<ge> 0"
    by code_simp
  have e: "ep afterD5 = Some 19"
    by code_simp
  have "epConsumable afterD5 19"
    using computeKey_ep_neutral [of afterD5 19 None 19] hashed e by auto
  with stale same hashed e show ?thesis by simp
qed

section \<open>Insufficient material\<close>










section \<open>Move-generation soundness\<close>


lemma toIndex_rank_file: "0 \<le> a \<Longrightarrow> toIndex (rankOf a) (fileOf a) = a"
  by (simp add: toIndex_def rankOf_def fileOf_def jsrem_def)

lemma onBoard_toIndex_range: "onBoard r f \<Longrightarrow> 0 \<le> toIndex r f \<and> toIndex r f \<le> 63"
  by (auto simp: onBoard_def toIndex_def)

lemma rayAttack_cong:
  assumes occ: "\<And>j. 0 \<le> j \<Longrightarrow> j \<le> 63 \<Longrightarrow> (board st' j = None \<longleftrightarrow> board st j = None)"
    and att: "\<And>j q. 0 \<le> j \<Longrightarrow> j \<le> 63 \<Longrightarrow> pc q = c \<Longrightarrow>
                (board st' j = Some q \<longleftrightarrow> board st j = Some q)"
  shows "rayAttack st' c k r f dr df ss = rayAttack st c k r f dr df ss"
proof (induction ss)
  case Nil
  show ?case by simp
next
  case (Cons s ss)
  let ?rr = "r + dr * s" and ?ff = "f + df * s"
  show ?case
  proof (cases "onBoard ?rr ?ff")
    case False
    then show ?thesis by simp
  next
    case True
    let ?j = "toIndex ?rr ?ff"
    have rng: "0 \<le> ?j" "?j \<le> 63" using onBoard_toIndex_range [OF True] by simp_all
    show ?thesis
    proof (cases "board st ?j")
      case None
      then have "board st' ?j = None" using occ [OF rng] by simp
      with None True Cons show ?thesis by simp
    next
      case (Some q)
      then obtain q' where q': "board st' ?j = Some q'"
        using occ [OF rng] by (cases "board st' ?j") auto
      have a: "pc q = c \<Longrightarrow> q' = q" using att [OF rng, of q] Some q' by simp
      have b: "pc q' = c \<Longrightarrow> q' = q" using att [OF rng, of q'] Some q' by simp
      have step: "rayAttack st' c k r f dr df (s # ss)
                    = (if pc q' \<noteq> c then False else (pt q' = k \<or> pt q' = Queen))"
        using True q' by simp
      have step': "rayAttack st c k r f dr df (s # ss)
                    = (if pc q \<noteq> c then False else (pt q = k \<or> pt q = Queen))"
        using True Some by simp
      show ?thesis
      proof (cases "pc q = c")
        case True
        with a step step' show ?thesis by simp
      next
        case False
        with b have "pc q' \<noteq> c" by auto
        with False step step' show ?thesis by simp
      qed
    qed
  qed
qed

lemma stepAttack_cong:
  assumes att: "\<And>j q. 0 \<le> j \<Longrightarrow> j \<le> 63 \<Longrightarrow> pc q = c \<Longrightarrow>
                (board st' j = Some q \<longleftrightarrow> board st j = Some q)"
  shows "stepAttack st' c k r f deltas = stepAttack st c k r f deltas"
proof -
  have "holds st' (toIndex rr ff) c k = holds st (toIndex rr ff) c k" if "onBoard rr ff" for rr ff
    using att [of "toIndex rr ff" "Piece c k"] onBoard_toIndex_range [OF that]
    by (simp add: holds_iff)
  then show ?thesis
    unfolding stepAttack_def list_ex_iff
    by (auto simp: Let_def)
qed

lemma isSquareAttacked_cong:
  assumes occ: "\<And>j. 0 \<le> j \<Longrightarrow> j \<le> 63 \<Longrightarrow> (board st' j = None \<longleftrightarrow> board st j = None)"
    and att: "\<And>j q. 0 \<le> j \<Longrightarrow> j \<le> 63 \<Longrightarrow> pc q = c \<Longrightarrow>
                (board st' j = Some q \<longleftrightarrow> board st j = Some q)"
  shows "isSquareAttacked st' i c = isSquareAttacked st i c"
  unfolding isSquareAttacked_def Let_def
  by (simp add: stepAttack_cong [of c st' st, OF att] rayAttack_cong [of st' st c, OF occ att])

lemma isSquareAttacked_board_eq:
  "board st' = board st \<Longrightarrow> isSquareAttacked st' i c = isSquareAttacked st i c"
  by (rule isSquareAttacked_cong) simp_all

lemma rayAttack_ray_cong:
  assumes "\<And>s. s \<in> set ss \<Longrightarrow> onBoard (r + dr * s) (f + df * s) \<Longrightarrow>
             board st' (toIndex (r + dr * s) (f + df * s))
               = board st (toIndex (r + dr * s) (f + df * s))"
  shows "rayAttack st' c k r f dr df ss = rayAttack st c k r f dr df ss"
  using assms
proof (induction ss)
  case Nil
  show ?case by simp
next
  case (Cons s ss)
  have ih: "rayAttack st' c k r f dr df ss = rayAttack st c k r f dr df ss"
    by (rule Cons.IH) (simp add: Cons.prems)
  show ?case
  proof (cases "onBoard (r + dr * s) (f + df * s)")
    case False
    then show ?thesis by simp
  next
    case True
    have "board st' (toIndex (r + dr * s) (f + df * s))
            = board st (toIndex (r + dr * s) (f + df * s))"
      using Cons.prems [of s] True by simp
    with True ih show ?thesis by (simp split: option.splits)
  qed
qed

lemma steps_list: "steps = [1, 2, 3, 4, 5, 6, 7]"
  unfolding steps_def by (simp add: upto.simps)

lemma castle_WK_attack:
  assumes e: "board st 61 = None" and rk: "board st 63 = Some (Piece White Rook)"
    and att: "isSquareAttacked (st \<lparr> board := (board st)(61 := Some (Piece White Rook),
                 63 := None) \<rparr>) 62 Black"
  shows "isSquareAttacked st 62 Black"
proof -
  let ?s = "st \<lparr> board := (board st)(61 := Some (Piece White Rook), 63 := None) \<rparr>"
  have rf: "rankOf 62 = 7" "fileOf 62 = 6"
    by (simp_all add: rankOf_def fileOf_def jsrem_def)
  have st: "stepAttack ?s Black k 7 6 deltas = stepAttack st Black k 7 6 deltas" for k deltas
    by (rule stepAttack_cong) (use e rk in auto)
  have r0: "rayAttack ?s Black Rook 7 6 1 0 steps = rayAttack st Black Rook 7 6 1 0 steps"
    by (rule rayAttack_ray_cong) (auto simp: steps_def onBoard_def toIndex_def)
  have r1: "rayAttack ?s Black Rook 7 6 (- 1) 0 steps = rayAttack st Black Rook 7 6 (- 1) 0 steps"
    by (rule rayAttack_ray_cong) (auto simp: steps_def onBoard_def toIndex_def)
  have r2: "rayAttack ?s Black Rook 7 6 0 1 steps \<Longrightarrow> rayAttack st Black Rook 7 6 0 1 steps"
    using assms(1-2) by (simp add: steps_list onBoard_def toIndex_def)
  have r3: "rayAttack ?s Black Rook 7 6 0 (- 1) steps \<Longrightarrow> rayAttack st Black Rook 7 6 0 (- 1) steps"
    using assms(1-2) by (simp add: steps_list onBoard_def toIndex_def)
  have r4: "rayAttack ?s Black Bishop 7 6 1 1 steps = rayAttack st Black Bishop 7 6 1 1 steps"
    by (rule rayAttack_ray_cong) (auto simp: steps_def onBoard_def toIndex_def)
  have r5: "rayAttack ?s Black Bishop 7 6 1 (- 1) steps = rayAttack st Black Bishop 7 6 1 (- 1) steps"
    by (rule rayAttack_ray_cong) (auto simp: steps_def onBoard_def toIndex_def)
  have r6: "rayAttack ?s Black Bishop 7 6 (- 1) 1 steps = rayAttack st Black Bishop 7 6 (- 1) 1 steps"
    by (rule rayAttack_ray_cong) (auto simp: steps_def onBoard_def toIndex_def)
  have r7: "rayAttack ?s Black Bishop 7 6 (- 1) (- 1) steps = rayAttack st Black Bishop 7 6 (- 1) (- 1) steps"
    by (rule rayAttack_ray_cong) (auto simp: steps_def onBoard_def toIndex_def)
  show ?thesis
    using att r0 r1 r2 r3 r4 r5 r6 r7
    unfolding isSquareAttacked_def Let_def rf st dirsDiag_def dirsOrtho_def
    by auto
qed

lemma castle_WQ_attack:
  assumes e: "board st 59 = None" and e2: "board st 57 = None" and rk: "board st 56 = Some (Piece White Rook)"
    and att: "isSquareAttacked (st \<lparr> board := (board st)(59 := Some (Piece White Rook),
                 56 := None) \<rparr>) 58 Black"
  shows "isSquareAttacked st 58 Black"
proof -
  let ?s = "st \<lparr> board := (board st)(59 := Some (Piece White Rook), 56 := None) \<rparr>"
  have rf: "rankOf 58 = 7" "fileOf 58 = 2"
    by (simp_all add: rankOf_def fileOf_def jsrem_def)
  have st: "stepAttack ?s Black k 7 2 deltas = stepAttack st Black k 7 2 deltas" for k deltas
    by (rule stepAttack_cong) (use e rk in auto)
  have r0: "rayAttack ?s Black Rook 7 2 1 0 steps = rayAttack st Black Rook 7 2 1 0 steps"
    by (rule rayAttack_ray_cong) (auto simp: steps_def onBoard_def toIndex_def)
  have r1: "rayAttack ?s Black Rook 7 2 (- 1) 0 steps = rayAttack st Black Rook 7 2 (- 1) 0 steps"
    by (rule rayAttack_ray_cong) (auto simp: steps_def onBoard_def toIndex_def)
  have r2: "rayAttack ?s Black Rook 7 2 0 1 steps \<Longrightarrow> rayAttack st Black Rook 7 2 0 1 steps"
    using assms(1-3) by (simp add: steps_list onBoard_def toIndex_def)
  have r3: "rayAttack ?s Black Rook 7 2 0 (- 1) steps \<Longrightarrow> rayAttack st Black Rook 7 2 0 (- 1) steps"
    using assms(1-3) by (simp add: steps_list onBoard_def toIndex_def)
  have r4: "rayAttack ?s Black Bishop 7 2 1 1 steps = rayAttack st Black Bishop 7 2 1 1 steps"
    by (rule rayAttack_ray_cong) (auto simp: steps_def onBoard_def toIndex_def)
  have r5: "rayAttack ?s Black Bishop 7 2 1 (- 1) steps = rayAttack st Black Bishop 7 2 1 (- 1) steps"
    by (rule rayAttack_ray_cong) (auto simp: steps_def onBoard_def toIndex_def)
  have r6: "rayAttack ?s Black Bishop 7 2 (- 1) 1 steps = rayAttack st Black Bishop 7 2 (- 1) 1 steps"
    by (rule rayAttack_ray_cong) (auto simp: steps_def onBoard_def toIndex_def)
  have r7: "rayAttack ?s Black Bishop 7 2 (- 1) (- 1) steps = rayAttack st Black Bishop 7 2 (- 1) (- 1) steps"
    by (rule rayAttack_ray_cong) (auto simp: steps_def onBoard_def toIndex_def)
  show ?thesis
    using att r0 r1 r2 r3 r4 r5 r6 r7
    unfolding isSquareAttacked_def Let_def rf st dirsDiag_def dirsOrtho_def
    by auto
qed

lemma castle_BK_attack:
  assumes e: "board st 5 = None" and rk: "board st 7 = Some (Piece Black Rook)"
    and att: "isSquareAttacked (st \<lparr> board := (board st)(5 := Some (Piece Black Rook),
                 7 := None) \<rparr>) 6 White"
  shows "isSquareAttacked st 6 White"
proof -
  let ?s = "st \<lparr> board := (board st)(5 := Some (Piece Black Rook), 7 := None) \<rparr>"
  have rf: "rankOf 6 = 0" "fileOf 6 = 6"
    by (simp_all add: rankOf_def fileOf_def jsrem_def)
  have st: "stepAttack ?s White k 0 6 deltas = stepAttack st White k 0 6 deltas" for k deltas
    by (rule stepAttack_cong) (use e rk in auto)
  have r0: "rayAttack ?s White Rook 0 6 1 0 steps = rayAttack st White Rook 0 6 1 0 steps"
    by (rule rayAttack_ray_cong) (auto simp: steps_def onBoard_def toIndex_def)
  have r1: "rayAttack ?s White Rook 0 6 (- 1) 0 steps = rayAttack st White Rook 0 6 (- 1) 0 steps"
    by (rule rayAttack_ray_cong) (auto simp: steps_def onBoard_def toIndex_def)
  have r2: "rayAttack ?s White Rook 0 6 0 1 steps \<Longrightarrow> rayAttack st White Rook 0 6 0 1 steps"
    using assms(1-2) by (simp add: steps_list onBoard_def toIndex_def)
  have r3: "rayAttack ?s White Rook 0 6 0 (- 1) steps \<Longrightarrow> rayAttack st White Rook 0 6 0 (- 1) steps"
    using assms(1-2) by (simp add: steps_list onBoard_def toIndex_def)
  have r4: "rayAttack ?s White Bishop 0 6 1 1 steps = rayAttack st White Bishop 0 6 1 1 steps"
    by (rule rayAttack_ray_cong) (auto simp: steps_def onBoard_def toIndex_def)
  have r5: "rayAttack ?s White Bishop 0 6 1 (- 1) steps = rayAttack st White Bishop 0 6 1 (- 1) steps"
    by (rule rayAttack_ray_cong) (auto simp: steps_def onBoard_def toIndex_def)
  have r6: "rayAttack ?s White Bishop 0 6 (- 1) 1 steps = rayAttack st White Bishop 0 6 (- 1) 1 steps"
    by (rule rayAttack_ray_cong) (auto simp: steps_def onBoard_def toIndex_def)
  have r7: "rayAttack ?s White Bishop 0 6 (- 1) (- 1) steps = rayAttack st White Bishop 0 6 (- 1) (- 1) steps"
    by (rule rayAttack_ray_cong) (auto simp: steps_def onBoard_def toIndex_def)
  show ?thesis
    using att r0 r1 r2 r3 r4 r5 r6 r7
    unfolding isSquareAttacked_def Let_def rf st dirsDiag_def dirsOrtho_def
    by auto
qed

lemma castle_BQ_attack:
  assumes e: "board st 3 = None" and e2: "board st 1 = None" and rk: "board st 0 = Some (Piece Black Rook)"
    and att: "isSquareAttacked (st \<lparr> board := (board st)(3 := Some (Piece Black Rook),
                 0 := None) \<rparr>) 2 White"
  shows "isSquareAttacked st 2 White"
proof -
  let ?s = "st \<lparr> board := (board st)(3 := Some (Piece Black Rook), 0 := None) \<rparr>"
  have rf: "rankOf 2 = 0" "fileOf 2 = 2"
    by (simp_all add: rankOf_def fileOf_def jsrem_def)
  have st: "stepAttack ?s White k 0 2 deltas = stepAttack st White k 0 2 deltas" for k deltas
    by (rule stepAttack_cong) (use e rk in auto)
  have r0: "rayAttack ?s White Rook 0 2 1 0 steps = rayAttack st White Rook 0 2 1 0 steps"
    by (rule rayAttack_ray_cong) (auto simp: steps_def onBoard_def toIndex_def)
  have r1: "rayAttack ?s White Rook 0 2 (- 1) 0 steps = rayAttack st White Rook 0 2 (- 1) 0 steps"
    by (rule rayAttack_ray_cong) (auto simp: steps_def onBoard_def toIndex_def)
  have r2: "rayAttack ?s White Rook 0 2 0 1 steps \<Longrightarrow> rayAttack st White Rook 0 2 0 1 steps"
    using assms(1-3) by (simp add: steps_list onBoard_def toIndex_def)
  have r3: "rayAttack ?s White Rook 0 2 0 (- 1) steps \<Longrightarrow> rayAttack st White Rook 0 2 0 (- 1) steps"
    using assms(1-3) by (simp add: steps_list onBoard_def toIndex_def)
  have r4: "rayAttack ?s White Bishop 0 2 1 1 steps = rayAttack st White Bishop 0 2 1 1 steps"
    by (rule rayAttack_ray_cong) (auto simp: steps_def onBoard_def toIndex_def)
  have r5: "rayAttack ?s White Bishop 0 2 1 (- 1) steps = rayAttack st White Bishop 0 2 1 (- 1) steps"
    by (rule rayAttack_ray_cong) (auto simp: steps_def onBoard_def toIndex_def)
  have r6: "rayAttack ?s White Bishop 0 2 (- 1) 1 steps = rayAttack st White Bishop 0 2 (- 1) 1 steps"
    by (rule rayAttack_ray_cong) (auto simp: steps_def onBoard_def toIndex_def)
  have r7: "rayAttack ?s White Bishop 0 2 (- 1) (- 1) steps = rayAttack st White Bishop 0 2 (- 1) (- 1) steps"
    by (rule rayAttack_ray_cong) (auto simp: steps_def onBoard_def toIndex_def)
  show ?thesis
    using att r0 r1 r2 r3 r4 r5 r6 r7
    unfolding isSquareAttacked_def Let_def rf st dirsDiag_def dirsOrtho_def
    by auto
qed


lemma findKingFrom_unique:
  assumes "length (filter (\<lambda>i. holds st i c King) xs) = 1"
    and "j \<in> set xs" and "holds st j c King"
  shows "findKingFrom st c xs = j"
  using assms
proof (induction xs)
  case Nil
  then show ?case by simp
next
  case (Cons x xs)
  show ?case
  proof (cases "holds st x c King")
    case True
    with Cons.prems(1) have "filter (\<lambda>i. holds st i c King) xs = []" by simp
    then have "\<forall>i \<in> set xs. \<not> holds st i c King" by (simp add: filter_empty_conv)
    with Cons.prems(2,3) have "j = x" by auto
    with True show ?thesis by simp
  next
    case False
    with Cons show ?thesis by auto
  qed
qed

lemma oneKing_unique:
  "oneKing st c \<Longrightarrow> j \<in> set squares \<Longrightarrow> holds st j c King \<Longrightarrow> findKing st c = j"
  unfolding oneKing_def countPiece_def findKing_def
  by (rule findKingFrom_unique) (simp_all add: holds_iff)

lemma findKingFrom_only:
  assumes "t \<in> set xs" and "\<And>j. j \<in> set xs \<Longrightarrow> holds st j c King \<longleftrightarrow> j = t"
  shows "findKingFrom st c xs = t"
  using assms by (induction xs) auto

lemma board_removeCastleRight [simp]: "board (removeCastleRight s cs) = board s"
  by (simp add: removeCastleRight_def)

lemma board_Let: "board (Let a f) = Let a (\<lambda>x. board (f x))"
  by simp

lemma Let_board: "Let a board = board a"
  by simp

lemma board_upd:
  "board (s \<lparr> fullmove := a \<rparr>) = board s"
  "board (s \<lparr> halfmove := a \<rparr>) = board s"
  "board (s \<lparr> turn := t \<rparr>) = board s"
  "board (s \<lparr> ep := e \<rparr>) = board s"
  "board (s \<lparr> castleRight := r \<rparr>) = board s"
  "board (s \<lparr> board := b \<rparr>) = b"
  by simp_all

lemma applyMovePure_board_nonking:
  assumes "board st from = Some p" and "pt p \<noteq> King"
  shows "board (applyMovePure st from to) =
     (let b1 = (board st)(to := Some p, from := None);
          b2 = (if pt p = Pawn \<and> Some to = ep st \<and> fileOf from \<noteq> fileOf to
                then b1(toIndex (rankOf to - (if pc p = White then -1 else 1)) (fileOf to) := None)
                else b1)
      in if pt p = Pawn \<and> (rankOf to = 0 \<or> rankOf to = 7)
         then b2(to := Some (Piece (pc p) Queen)) else b2)"
  using assms
  apply (simp only: applyMovePure_def option.case board_Let Let_board if_distrib [of board]
      board_removeCastleRight board_upd if_cancel cong: if_cong)
  apply (auto simp: Let_def setBoard_def)
  done

lemma applyMovePure_board_king:
  assumes "board st from = Some p" and "pt p = King"
  shows "board (applyMovePure st from to) =
     (let b1 = (board st)(to := Some p, from := None)
      in if \<bar>fileOf to - fileOf from\<bar> = 2 then
           (if pc p = White then
              (if to = 62 then b1(61 := b1 63, 63 := None) else b1(59 := b1 56, 56 := None))
            else
              (if to = 6 then b1(5 := b1 7, 7 := None) else b1(3 := b1 0, 0 := None)))
         else b1)"
  using assms
  apply (simp only: applyMovePure_def option.case board_Let Let_board if_distrib [of board]
      board_removeCastleRight board_upd if_cancel cong: if_cong)
  apply (auto simp: Let_def setBoard_def toIndex_def)
  done


lemma leavesKingInCheck_plain:
  assumes "board st from = Some p"
    and "\<not> (pt p = Pawn \<and> Some to = ep st \<and> fileOf from \<noteq> fileOf to \<and> board st to = None)"
  shows "leavesKingInCheck st from to (Some k)
           = isSquareAttacked (setBoard (setBoard st to (Some p)) from None)
               (if pt p = King then to else k) (other (pc p))"
  using assms by (auto simp: leavesKingInCheck_def leavesKingInCheck_run_def Let_def)

lemma leavesKingInCheck_ep:
  assumes "board st from = Some p"
    and "pt p = Pawn" and "Some to = ep st" and "fileOf from \<noteq> fileOf to" and "board st to = None"
    and "e = toIndex (rankOf to - (if pc p = White then -1 else 1)) (fileOf to)"
  shows "leavesKingInCheck st from to (Some k)
           = isSquareAttacked
               (setBoard (setBoard (if e \<noteq> -1 then setBoard st e None else st) to (Some p))
                     from None)
               k (other (pc p))"
  using assms by (simp add: leavesKingInCheck_def leavesKingInCheck_run_def Let_def)

lemma applyMovePure_board_ep:
  assumes p: "board st from = Some p" and nk: "pt p \<noteq> King"
    and isEP: "pt p = Pawn" "Some to = ep st" "fileOf from \<noteq> fileOf to"
    and ne: "e \<noteq> to" "e \<noteq> from"
    and e: "e = toIndex (rankOf to - (if pc p = White then -1 else 1)) (fileOf to)"
  shows "board (applyMovePure st from to) j
               = (if (rankOf to = 0 \<or> rankOf to = 7) \<and> j = to
                  then Some (Piece (pc p) Queen)
                  else if j = from then None else if j = to then Some p
                   else if j = e then None else board st j)"
proof -
  have "board (applyMovePure st from to) =
     (let b2 = (board st)(to := Some p, from := None, e := None)
      in if rankOf to = 0 \<or> rankOf to = 7
         then b2(to := Some (Piece (pc p) Queen)) else b2)"
    unfolding applyMovePure_board_nonking [OF p nk] e using isEP by (simp add: Let_def)
  then show ?thesis using ne by (simp add: Let_def)
qed

lemma applyMovePure_board_plain:
  assumes p: "board st from = Some p" and nk: "pt p \<noteq> King"
    and notEP: "\<not> (pt p = Pawn \<and> Some to = ep st \<and> fileOf from \<noteq> fileOf to)"
  shows "board (applyMovePure st from to) j
               = (if pt p = Pawn \<and> (rankOf to = 0 \<or> rankOf to = 7) \<and> j = to
                  then Some (Piece (pc p) Queen)
                  else if j = from then None else if j = to then Some p else board st j)"
proof -
  have c: "(pt p = Pawn \<and> Some to = ep st \<and> fileOf from \<noteq> fileOf to) = False"
    using notEP by simp
  have "board (applyMovePure st from to) =
     (let b1 = (board st)(to := Some p, from := None)
      in if pt p = Pawn \<and> (rankOf to = 0 \<or> rankOf to = 7)
         then b1(to := Some (Piece (pc p) Queen)) else b1)"
    unfolding applyMovePure_board_nonking [OF p nk] c by (simp add: Let_def)
  then show ?thesis by (auto simp: Let_def)
qed

lemma ep_victim_facts:
  assumes p: "board st from = Some p" and rng: "0 \<le> from"
    and epe: "epSquareEmpty st" and gen: "to \<in> set (generateMoves st from)"
    and isEP: "pt p = Pawn" "Some to = ep st" "fileOf from \<noteq> fileOf to"
    and e: "e = toIndex (rankOf to - (if pc p = White then -1 else 1)) (fileOf to)"
  shows "board st to = None" and "board st e = Some (Piece (other (pc p)) Pawn)"
    and "e \<noteq> to" and "e \<noteq> from"
proof -
  show toN: "board st to = None"
    using epe isEP(2) by (auto simp: epSquareEmpty_def split: option.splits)
  have pm: "to \<in> set (pawnMoves st from)"
    using p gen isEP by (simp add: generateMoves_def)
  have "holds st e (other (pc p)) Pawn"
    unfolding e using pawnMoves_ep_victim [OF p isEP(1) rng pm] isEP toN by simp
  then show vic: "board st e = Some (Piece (other (pc p)) Pawn)"
    by (simp add: holds_iff)
  show "e \<noteq> to" using vic toN by auto
  show "e \<noteq> from"
  proof
    assume "e = from"
    with vic p have "p = Piece (other (pc p)) Pawn" by simp
    then have "pc p = other (pc p)" by (metis piece.sel(1))
    then show False by (simp add: other_def split: if_splits)
  qed
qed

lemma nonking_attack:
  assumes p: "board st from = Some p" and nk: "pt p \<noteq> King" and rng: "0 \<le> from"
    and epe: "epSquareEmpty st" and gen: "to \<in> set (generateMoves st from)"
  shows "isSquareAttacked (applyMovePure st from to) k (other (pc p))
           = leavesKingInCheck st from to (Some k)"
proof -
  let ?c = "pc p"
  define e where "e = toIndex (rankOf to - (if pc p = White then -1 else 1)) (fileOf to)"
  have oth: "other ?c \<noteq> ?c" by (simp add: other_def)
  have ft: "from \<noteq> to"
    using generateMoves_free [OF p nk epe gen] p by (auto simp: blocked_def)
  show ?thesis
  proof (cases "pt p = Pawn \<and> Some to = ep st \<and> fileOf from \<noteq> fileOf to")
    case True
    then have isEP: "pt p = Pawn" "Some to = ep st" "fileOf from \<noteq> fileOf to" by simp_all
    note f = ep_victim_facts [OF p rng epe gen isEP e_def]
    let ?X = "\<lambda>j. if j = from then None else if j = to then Some p
                   else if j = e then None else board st j"
    let ?S3 = "setBoard (setBoard (if e \<noteq> -1 then setBoard st e None else st) to (Some p))
                 from None"
    have lk: "leavesKingInCheck st from to (Some k) = isSquareAttacked ?S3 k (other ?c)"
      by (rule leavesKingInCheck_ep [OF p isEP f(1) e_def])
    have B: "board ?S3 j = ?X j" if "0 \<le> j" for j
      using that by (simp add: setBoard_def)
    note A = applyMovePure_board_ep [OF p nk isEP f(3,4) e_def]
    have "isSquareAttacked (applyMovePure st from to) k (other ?c)
            = isSquareAttacked ?S3 k (other ?c)"
    proof (rule isSquareAttacked_cong)
      fix j :: int
      assume j: "0 \<le> j" "j \<le> 63"
      show "board (applyMovePure st from to) j = None \<longleftrightarrow> board ?S3 j = None"
        unfolding A B [OF j(1)] using ft by simp
    next
      fix j :: int and q
      assume j: "0 \<le> j" "j \<le> 63" and q: "pc q = other ?c"
      have "q \<noteq> Piece ?c Queen" "q \<noteq> p" using q oth by auto
      then show "board (applyMovePure st from to) j = Some q \<longleftrightarrow> board ?S3 j = Some q"
        unfolding A B [OF j(1)] using ft by simp
    qed
    with lk show ?thesis by simp
  next
    case notEP: False
    let ?X = "\<lambda>j. if j = from then None else if j = to then Some p else board st j"
    let ?S3 = "setBoard (setBoard st to (Some p)) from None"
    have lk: "leavesKingInCheck st from to (Some k) = isSquareAttacked ?S3 k (other ?c)"
      using leavesKingInCheck_plain [OF p, of to k] notEP nk by auto
    have B: "board ?S3 j = ?X j" for j
      by (simp add: setBoard_def)
    note A = applyMovePure_board_plain [OF p nk notEP]
    have "isSquareAttacked (applyMovePure st from to) k (other ?c)
            = isSquareAttacked ?S3 k (other ?c)"
    proof (rule isSquareAttacked_cong)
      fix j :: int
      assume j: "0 \<le> j" "j \<le> 63"
      show "board (applyMovePure st from to) j = None \<longleftrightarrow> board ?S3 j = None"
        unfolding A B using ft by simp
    next
      fix j :: int and q
      assume j: "0 \<le> j" "j \<le> 63" and q: "pc q = other ?c"
      have "q \<noteq> Piece ?c Queen" "q \<noteq> p" using q oth by auto
      then show "board (applyMovePure st from to) j = Some q \<longleftrightarrow> board ?S3 j = Some q"
        unfolding A B using ft by simp
    qed
    with lk show ?thesis by simp
  qed
qed

lemma nonking_findKing:
  assumes p: "board st from = Some p" and nk: "pt p \<noteq> King" and rng: "0 \<le> from"
    and epe: "epSquareEmpty st" and gen: "to \<in> set (generateMoves st from)"
  shows "findKing (applyMovePure st from to) (pc p) = findKing st (pc p)"
  unfolding findKing_def
proof (rule findKingFrom_cong)
  fix j
  assume "j \<in> set squares"
  let ?c = "pc p"
  define e where "e = toIndex (rankOf to - (if pc p = White then -1 else 1)) (fileOf to)"
  have own: "\<And>q. board st to = Some q \<Longrightarrow> pc q \<noteq> ?c"
    using generateMoves_free [OF p nk epe gen] by (simp add: not_blocked_iff)
  have oth: "other ?c \<noteq> ?c" by (simp add: other_def)
  show "holds (applyMovePure st from to) j ?c King = holds st j ?c King"
  proof (cases "pt p = Pawn \<and> Some to = ep st \<and> fileOf from \<noteq> fileOf to")
    case True
    then have isEP: "pt p = Pawn" "Some to = ep st" "fileOf from \<noteq> fileOf to" by simp_all
    note f = ep_victim_facts [OF p rng epe gen isEP e_def]
    note A = applyMovePure_board_ep [OF p nk isEP f(3,4) e_def]
    show ?thesis
      unfolding holds_def A using p nk f(1,2) oth by auto
  next
    case notEP: False
    note A = applyMovePure_board_plain [OF p nk notEP]
    show ?thesis
      unfolding holds_def A using p nk own by (auto split: option.splits)
  qed
qed


lemma stepTargets_shape:
  assumes "b \<in> set (stepTargets st c r f deltas)"
  shows "\<exists>dr df. (dr, df) \<in> set deltas \<and> onBoard (r + dr) (f + df)
           \<and> b = toIndex (r + dr) (f + df)"
  using assms by (auto simp: stepTargets_def Let_def split: if_splits)

lemma king_step_target:
  assumes "b \<in> set (stepTargets st c (rankOf i) (fileOf i) kingDeltas)"
  shows "0 \<le> b \<and> b \<le> 63 \<and> \<bar>fileOf b - fileOf i\<bar> \<noteq> 2"
proof -
  from stepTargets_shape [OF assms] obtain dr df where
    d: "(dr, df) \<in> set kingDeltas" and ob: "onBoard (rankOf i + dr) (fileOf i + df)"
    and b: "b = toIndex (rankOf i + dr) (fileOf i + df)" by blast
  have f: "fileOf b = fileOf i + df"
    unfolding b using ob by (intro fileOf_toIndex) (auto simp: onBoard_def)
  have "\<bar>df\<bar> \<le> 1" using d by (auto simp: kingDeltas_def)
  with f onBoard_toIndex_range [OF ob] b show ?thesis by auto
qed

lemma kingStart_square:
  assumes "0 \<le> i" and "rankOf i = r" and "fileOf i = 4"
  shows "i = r * 8 + 4"
  using toIndex_rank_file [OF assms(1)] assms(2,3) by (simp add: toIndex_def)


lemma kingMoves_cases:
  assumes p: "board st i = Some p" and k: "pt p = King" and rng: "0 \<le> i"
    and b: "b \<in> set (kingMoves st i)"
  shows "(0 \<le> b \<and> b \<le> 63 \<and> \<bar>fileOf b - fileOf i\<bar> \<noteq> 2 \<and> \<not> blocked st (pc p) b)
       \<or> (pc p = White \<and> i = 60 \<and> b = 62 \<and> board st 61 = None \<and> board st 62 = None
            \<and> board st 63 = Some (Piece White Rook))
       \<or> (pc p = White \<and> i = 60 \<and> b = 58 \<and> board st 59 = None \<and> board st 58 = None
            \<and> board st 57 = None \<and> board st 56 = Some (Piece White Rook))
       \<or> (pc p = Black \<and> i = 4 \<and> b = 6 \<and> board st 5 = None \<and> board st 6 = None
            \<and> board st 7 = Some (Piece Black Rook))
       \<or> (pc p = Black \<and> i = 4 \<and> b = 2 \<and> board st 3 = None \<and> board st 2 = None
            \<and> board st 1 = None \<and> board st 0 = Some (Piece Black Rook))"
proof (cases "b \<in> set (stepTargets st (pc p) (rankOf i) (fileOf i) kingDeltas)")
  case True
  from king_step_target [OF this] stepTargets_free [OF True] show ?thesis by simp
next
  case False
  have w: "pc p = White \<Longrightarrow> rankOf i = 7 \<Longrightarrow> fileOf i = 4 \<Longrightarrow> i = 60"
    using kingStart_square [OF rng, of 7] by simp
  have bl: "pc p \<noteq> White \<Longrightarrow> rankOf i = 0 \<Longrightarrow> fileOf i = 4 \<Longrightarrow> i = 4"
    using kingStart_square [OF rng, of 0] by simp
  have col: "pc p \<noteq> White \<Longrightarrow> pc p = Black" by (cases "pc p") auto
  from b False p k w bl col show ?thesis
    by (auto simp: kingMoves_def Let_def holds_iff split: if_splits)
qed

lemma king_findKing_after:
  assumes uniq: "\<And>j. j \<in> set squares \<Longrightarrow> board st j = Some (Piece c King) \<Longrightarrow> j = src"
    and t: "to \<in> set squares" and bt: "board st' to = Some (Piece c King)"
    and bf: "board st' src \<noteq> Some (Piece c King)"
    and rest: "\<And>j. j \<in> set squares \<Longrightarrow> j \<noteq> to \<Longrightarrow> j \<noteq> src \<Longrightarrow>
                 board st' j = Some (Piece c King) \<Longrightarrow> board st j = Some (Piece c King)"
  shows "findKing st' c = to"
  unfolding findKing_def
proof (rule findKingFrom_only [OF t])
  fix j assume j: "j \<in> set squares"
  show "holds st' j c King \<longleftrightarrow> j = to"
    using uniq [OF j] rest [OF j] bt bf by (auto simp: holds_iff)
qed

lemma king_step:
  assumes p: "board st from = Some p" and k: "pt p = King"
    and f: "from \<in> set squares" and one: "oneKing st (pc p)"
    and t: "0 \<le> to" "to \<le> 63" and fl: "\<bar>fileOf to - fileOf from\<bar> \<noteq> 2"
    and nb: "\<not> blocked st (pc p) to"
    and ok: "\<not> leavesKingInCheck st from to (Some k0)"
  shows "findKing (applyMovePure st from to) (pc p) = to
       \<and> \<not> isSquareAttacked (applyMovePure st from to) to (other (pc p))"
proof -
  define S3 where "S3 = setBoard (setBoard st to (Some p)) from None"
  have pk: "p = Piece (pc p) King" using k by (cases p) simp
  have ft: "from \<noteq> to" using nb p by (auto simp: blocked_def)
  have b3: "board S3 = (board st)(to := Some p, from := None)"
    by (simp add: S3_def setBoard_def)
  have b': "board (applyMovePure st from to) = board S3"
    unfolding applyMovePure_board_king [OF p k] b3 using fl by (simp add: Let_def)
  have nat3: "\<not> isSquareAttacked S3 to (other (pc p))"
    using ok leavesKingInCheck_plain [OF p, of to k0] k by (simp add: S3_def)
  have "isSquareAttacked (applyMovePure st from to) to (other (pc p))
          = isSquareAttacked S3 to (other (pc p))"
    by (rule isSquareAttacked_board_eq) (rule b')
  moreover have "findKing (applyMovePure st from to) (pc p) = to"
  proof (rule king_findKing_after [where src = "from" and st = st])
    fix j assume "j \<in> set squares" and "board st j = Some (Piece (pc p) King)"
    with oneKing_unique [OF one, of j] oneKing_unique [OF one, of "from"] p pk f
    show "j = from" by (simp add: holds_iff)
  next
    show "board (applyMovePure st from to) to = Some (Piece (pc p) King)"
      using ft pk by (simp add: b' b3)
  qed (use ft t in \<open>simp_all add: b' b3 squares_iff\<close>)
  ultimately show ?thesis using nat3 by simp
qed

lemma king_castle_WK:
  assumes p: "board st 60 = Some p" and k: "pt p = King" and c: "pc p = White"
    and one: "oneKing st White"
    and e1: "board st 61 = None" and e2: "board st 62 = None"
    and rk: "board st 63 = Some (Piece White Rook)"
    and ok: "\<not> leavesKingInCheck st 60 62 (Some k0)"
  shows "findKing (applyMovePure st 60 62) White = 62
       \<and> \<not> isSquareAttacked (applyMovePure st 60 62) 62 Black"
proof -
  define S3 where "S3 = setBoard (setBoard st 62 (Some p)) 60 None"
  have pk: "p = Piece White King" using k c by (cases p) simp
  have b3: "board S3 = (board st)(62 := Some p, 60 := None)"
    by (simp add: S3_def setBoard_def)
  have fl: "\<bar>fileOf 62 - fileOf 60\<bar> = (2::int)" by (simp add: fileOf_def jsrem_def)
  have b': "board (applyMovePure st 60 62)
              = (board S3)(61 := Some (Piece White Rook), 63 := None)"
    unfolding applyMovePure_board_king [OF p k] b3 using rk c fl by (simp add: Let_def)
  have nat3: "\<not> isSquareAttacked S3 62 Black"
    using ok leavesKingInCheck_plain [OF p, of 62 k0] k c
    by (simp add: S3_def other_def)
  have "\<not> isSquareAttacked (S3 \<lparr> board := (board S3)(61 := Some (Piece White Rook),
                  63 := None) \<rparr>) 62 Black"
  proof
    assume a: "isSquareAttacked (S3 \<lparr> board := (board S3)(61 := Some (Piece White Rook),
                  63 := None) \<rparr>) 62 Black"
    have "isSquareAttacked S3 62 Black"
      by (rule castle_WK_attack [OF _ _ a]) (simp_all add: b3 e1  rk)
    with nat3 show False by simp
  qed
  moreover have "isSquareAttacked (applyMovePure st 60 62) 62 Black
      = isSquareAttacked (S3 \<lparr> board := (board S3)(61 := Some (Piece White Rook),
                  63 := None) \<rparr>) 62 Black"
    by (rule isSquareAttacked_board_eq) (simp add: b')
  moreover have "findKing (applyMovePure st 60 62) White = 62"
  proof (rule king_findKing_after [where src = "60" and st = st])
    fix j assume "j \<in> set squares" and "board st j = Some (Piece White King)"
    with oneKing_unique [OF one, of j] oneKing_unique [OF one, of 60] p pk
    show "j = 60" by (simp add: holds_iff squares_iff)
  qed (auto simp: b' b3 pk squares_iff split: if_splits)
  ultimately show ?thesis by simp
qed

lemma king_castle_WQ:
  assumes p: "board st 60 = Some p" and k: "pt p = King" and c: "pc p = White"
    and one: "oneKing st White"
    and e1: "board st 59 = None" and e2: "board st 58 = None" and e3: "board st 57 = None"
    and rk: "board st 56 = Some (Piece White Rook)"
    and ok: "\<not> leavesKingInCheck st 60 58 (Some k0)"
  shows "findKing (applyMovePure st 60 58) White = 58
       \<and> \<not> isSquareAttacked (applyMovePure st 60 58) 58 Black"
proof -
  define S3 where "S3 = setBoard (setBoard st 58 (Some p)) 60 None"
  have pk: "p = Piece White King" using k c by (cases p) simp
  have b3: "board S3 = (board st)(58 := Some p, 60 := None)"
    by (simp add: S3_def setBoard_def)
  have fl: "\<bar>fileOf 58 - fileOf 60\<bar> = (2::int)" by (simp add: fileOf_def jsrem_def)
  have b': "board (applyMovePure st 60 58)
              = (board S3)(59 := Some (Piece White Rook), 56 := None)"
    unfolding applyMovePure_board_king [OF p k] b3 using rk c fl by (simp add: Let_def)
  have nat3: "\<not> isSquareAttacked S3 58 Black"
    using ok leavesKingInCheck_plain [OF p, of 58 k0] k c
    by (simp add: S3_def other_def)
  have "\<not> isSquareAttacked (S3 \<lparr> board := (board S3)(59 := Some (Piece White Rook),
                  56 := None) \<rparr>) 58 Black"
  proof
    assume a: "isSquareAttacked (S3 \<lparr> board := (board S3)(59 := Some (Piece White Rook),
                  56 := None) \<rparr>) 58 Black"
    have "isSquareAttacked S3 58 Black"
      by (rule castle_WQ_attack [OF _ _ _ a]) (simp_all add: b3 e1 e3 rk)
    with nat3 show False by simp
  qed
  moreover have "isSquareAttacked (applyMovePure st 60 58) 58 Black
      = isSquareAttacked (S3 \<lparr> board := (board S3)(59 := Some (Piece White Rook),
                  56 := None) \<rparr>) 58 Black"
    by (rule isSquareAttacked_board_eq) (simp add: b')
  moreover have "findKing (applyMovePure st 60 58) White = 58"
  proof (rule king_findKing_after [where src = "60" and st = st])
    fix j assume "j \<in> set squares" and "board st j = Some (Piece White King)"
    with oneKing_unique [OF one, of j] oneKing_unique [OF one, of 60] p pk
    show "j = 60" by (simp add: holds_iff squares_iff)
  qed (auto simp: b' b3 pk squares_iff split: if_splits)
  ultimately show ?thesis by simp
qed

lemma king_castle_BK:
  assumes p: "board st 4 = Some p" and k: "pt p = King" and c: "pc p = Black"
    and one: "oneKing st Black"
    and e1: "board st 5 = None" and e2: "board st 6 = None"
    and rk: "board st 7 = Some (Piece Black Rook)"
    and ok: "\<not> leavesKingInCheck st 4 6 (Some k0)"
  shows "findKing (applyMovePure st 4 6) Black = 6
       \<and> \<not> isSquareAttacked (applyMovePure st 4 6) 6 White"
proof -
  define S3 where "S3 = setBoard (setBoard st 6 (Some p)) 4 None"
  have pk: "p = Piece Black King" using k c by (cases p) simp
  have b3: "board S3 = (board st)(6 := Some p, 4 := None)"
    by (simp add: S3_def setBoard_def)
  have fl: "\<bar>fileOf 6 - fileOf 4\<bar> = (2::int)" by (simp add: fileOf_def jsrem_def)
  have b': "board (applyMovePure st 4 6)
              = (board S3)(5 := Some (Piece Black Rook), 7 := None)"
    unfolding applyMovePure_board_king [OF p k] b3 using rk c fl by (simp add: Let_def)
  have nat3: "\<not> isSquareAttacked S3 6 White"
    using ok leavesKingInCheck_plain [OF p, of 6 k0] k c
    by (simp add: S3_def other_def)
  have "\<not> isSquareAttacked (S3 \<lparr> board := (board S3)(5 := Some (Piece Black Rook),
                  7 := None) \<rparr>) 6 White"
  proof
    assume a: "isSquareAttacked (S3 \<lparr> board := (board S3)(5 := Some (Piece Black Rook),
                  7 := None) \<rparr>) 6 White"
    have "isSquareAttacked S3 6 White"
      by (rule castle_BK_attack [OF _ _ a]) (simp_all add: b3 e1  rk)
    with nat3 show False by simp
  qed
  moreover have "isSquareAttacked (applyMovePure st 4 6) 6 White
      = isSquareAttacked (S3 \<lparr> board := (board S3)(5 := Some (Piece Black Rook),
                  7 := None) \<rparr>) 6 White"
    by (rule isSquareAttacked_board_eq) (simp add: b')
  moreover have "findKing (applyMovePure st 4 6) Black = 6"
  proof (rule king_findKing_after [where src = "4" and st = st])
    fix j assume "j \<in> set squares" and "board st j = Some (Piece Black King)"
    with oneKing_unique [OF one, of j] oneKing_unique [OF one, of 4] p pk
    show "j = 4" by (simp add: holds_iff squares_iff)
  qed (auto simp: b' b3 pk squares_iff split: if_splits)
  ultimately show ?thesis by simp
qed

lemma king_castle_BQ:
  assumes p: "board st 4 = Some p" and k: "pt p = King" and c: "pc p = Black"
    and one: "oneKing st Black"
    and e1: "board st 3 = None" and e2: "board st 2 = None" and e3: "board st 1 = None"
    and rk: "board st 0 = Some (Piece Black Rook)"
    and ok: "\<not> leavesKingInCheck st 4 2 (Some k0)"
  shows "findKing (applyMovePure st 4 2) Black = 2
       \<and> \<not> isSquareAttacked (applyMovePure st 4 2) 2 White"
proof -
  define S3 where "S3 = setBoard (setBoard st 2 (Some p)) 4 None"
  have pk: "p = Piece Black King" using k c by (cases p) simp
  have b3: "board S3 = (board st)(2 := Some p, 4 := None)"
    by (simp add: S3_def setBoard_def)
  have fl: "\<bar>fileOf 2 - fileOf 4\<bar> = (2::int)" by (simp add: fileOf_def jsrem_def)
  have b': "board (applyMovePure st 4 2)
              = (board S3)(3 := Some (Piece Black Rook), 0 := None)"
    unfolding applyMovePure_board_king [OF p k] b3 using rk c fl by (simp add: Let_def)
  have nat3: "\<not> isSquareAttacked S3 2 White"
    using ok leavesKingInCheck_plain [OF p, of 2 k0] k c
    by (simp add: S3_def other_def)
  have "\<not> isSquareAttacked (S3 \<lparr> board := (board S3)(3 := Some (Piece Black Rook),
                  0 := None) \<rparr>) 2 White"
  proof
    assume a: "isSquareAttacked (S3 \<lparr> board := (board S3)(3 := Some (Piece Black Rook),
                  0 := None) \<rparr>) 2 White"
    have "isSquareAttacked S3 2 White"
      by (rule castle_BQ_attack [OF _ _ _ a]) (simp_all add: b3 e1 e3 rk)
    with nat3 show False by simp
  qed
  moreover have "isSquareAttacked (applyMovePure st 4 2) 2 White
      = isSquareAttacked (S3 \<lparr> board := (board S3)(3 := Some (Piece Black Rook),
                  0 := None) \<rparr>) 2 White"
    by (rule isSquareAttacked_board_eq) (simp add: b')
  moreover have "findKing (applyMovePure st 4 2) Black = 2"
  proof (rule king_findKing_after [where src = "4" and st = st])
    fix j assume "j \<in> set squares" and "board st j = Some (Piece Black King)"
    with oneKing_unique [OF one, of j] oneKing_unique [OF one, of 4] p pk
    show "j = 4" by (simp add: holds_iff squares_iff)
  qed (auto simp: b' b3 pk squares_iff split: if_splits)
  ultimately show ?thesis by simp
qed


lemma findKingFrom_holds:
  "findKingFrom st c xs \<noteq> -1 \<Longrightarrow> holds st (findKingFrom st c xs) c King"
  by (induction xs) auto

lemma findKing_holds: "findKing st c \<noteq> -1 \<Longrightarrow> holds st (findKing st c) c King"
  unfolding findKing_def by (rule findKingFrom_holds)

lemma king_move_after:
  assumes p: "board st from = Some p" and k: "pt p = King"
    and f: "from \<in> set squares" and one: "oneKing st (pc p)"
    and gen: "to \<in> set (kingMoves st from)"
    and ok: "\<not> leavesKingInCheck st from to (Some k0)"
  shows "0 \<le> to \<and> findKing (applyMovePure st from to) (pc p) = to
       \<and> \<not> isSquareAttacked (applyMovePure st from to) to (other (pc p))"
proof -
  from f have rng: "0 \<le> from" by (simp add: squares_iff)
  from kingMoves_cases [OF p k rng gen]
  consider
    (step) "0 \<le> to" "to \<le> 63" "\<bar>fileOf to - fileOf from\<bar> \<noteq> 2" "\<not> blocked st (pc p) to"
  | (wk) "pc p = White" "from = 60" "to = 62" "board st 61 = None" "board st 62 = None"
         "board st 63 = Some (Piece White Rook)"
  | (wq) "pc p = White" "from = 60" "to = 58" "board st 59 = None" "board st 58 = None"
         "board st 57 = None" "board st 56 = Some (Piece White Rook)"
  | (bk) "pc p = Black" "from = 4" "to = 6" "board st 5 = None" "board st 6 = None"
         "board st 7 = Some (Piece Black Rook)"
  | (bq) "pc p = Black" "from = 4" "to = 2" "board st 3 = None" "board st 2 = None"
         "board st 1 = None" "board st 0 = Some (Piece Black Rook)"
    by (elim disjE conjE) (erule meta_mp | assumption)+
  then show ?thesis
  proof cases
    case step
    with king_step [OF p k f one step(1,2,3,4) ok] show ?thesis by simp
  next
    case wk
    with king_castle_WK [of st p k0] p k one ok show ?thesis by (simp add: other_def)
  next
    case wq
    with king_castle_WQ [of st p k0] p k one ok show ?thesis by (simp add: other_def)
  next
    case bk
    with king_castle_BK [of st p k0] p k one ok show ?thesis by (simp add: other_def)
  next
    case bq
    with king_castle_BQ [of st p k0] p k one ok show ?thesis by (simp add: other_def)
  qed
qed

text \<open>
  C1. Move-generation soundness: in a position with exactly one king of the colour
  (data-model invariant 1) and an empty en-passant target square (invariant 3), every move
  \<open>(from, to)\<close> returned by \<^verbatim>\<open>allLegalMoves(state, color)\<close> is such that in the position
  \<^verbatim>\<open>applyMovePure(state, from, to)\<close> the king of the colour is on the board, the square it
  stands on is not attacked by the opposing side, so \<^verbatim>\<open>inCheck\<close> is false there; and
  \<^verbatim>\<open>leavesKingInCheck(state, from, to)\<close> is false.
\<close>

theorem allLegalMoves_sound:
  assumes "epSquareEmpty st" and "oneKing st c" and "(from, to) \<in> set (allLegalMoves st c)"
  shows "holds (applyMovePure st from to) (findKing (applyMovePure st from to) c) c King
       \<and> \<not> isSquareAttacked (applyMovePure st from to)
              (findKing (applyMovePure st from to) c) (other c)
       \<and> \<not> inCheck (applyMovePure st from to) c
       \<and> \<not> leavesKingInCheck st from to None"
proof -
  from allLegalMoves_members [OF assms(3)]
  obtain p where kne: "findKing st c \<noteq> -1" and sq: "from \<in> set squares"
    and p: "board st from = Some p" and c: "pc p = c"
    and gen: "to \<in> set (generateMoves st from)"
    and ok: "\<not> leavesKingInCheck st from to (Some (findKing st c))"
    by (auto simp: candidate_def)
  from sq have rng: "0 \<le> from" by (simp add: squares_iff)
  have lk: "\<not> leavesKingInCheck st from to None"
    using leavesKingInCheck_known [OF p rng assms(1) gen] ok c by simp
  define st' where "st' = applyMovePure st from to"
  have main: "findKing st' c \<noteq> -1 \<and> \<not> isSquareAttacked st' (findKing st' c) (other c)"
  proof (cases "pt p = King")
    case True
    with p c have "holds st from c King" by (simp add: holds_def)
    from generateMoves_King [OF this] gen have g: "to \<in> set (kingMoves st from)" by simp
    from king_move_after [OF p True sq _ g ok] assms(2) c
    show ?thesis by (simp add: st'_def)
  next
    case False
    from nonking_attack [OF p False rng assms(1) gen, of "findKing st c"]
      nonking_findKing [OF p False rng assms(1) gen] ok kne c
    show ?thesis by (simp add: st'_def)
  qed
  with findKing_holds [of st' c] lk show ?thesis
    unfolding st'_def [symmetric] by (simp add: inCheck_def Let_def)
qed

theorem allLegalMoves_sound_witness:
  "epSquareEmpty pinnedBishop \<and> oneKing pinnedBishop White
   \<and> allLegalMoves pinnedBishop White = [(60, 61), (60, 59), (60, 53), (60, 51)]
   \<and> generateMoves pinnedBishop 52 = [61, 59, 45, 38, 31, 43, 34, 25, 16]
   \<and> inCheck (applyMovePure pinnedBishop 52 43) White
   \<and> holds (applyMovePure pinnedBishop 60 59)
         (findKing (applyMovePure pinnedBishop 60 59) White) White King
   \<and> \<not> isSquareAttacked (applyMovePure pinnedBishop 60 59)
          (findKing (applyMovePure pinnedBishop 60 59) White) (other White)
   \<and> \<not> inCheck (applyMovePure pinnedBishop 60 59) White
   \<and> \<not> leavesKingInCheck pinnedBishop 60 59 None"
proof -
  have h1: "epSquareEmpty pinnedBishop"
    by (simp add: epSquareEmpty_def pinnedBishop_def)
  have h2: "oneKing pinnedBishop White"
    by code_simp
  have h3: "allLegalMoves pinnedBishop White = [(60, 61), (60, 59), (60, 53), (60, 51)]"
    by code_simp
  have h4: "generateMoves pinnedBishop 52 = [61, 59, 45, 38, 31, 43, 34, 25, 16]"
    by code_simp
  have h5: "inCheck (applyMovePure pinnedBishop 52 43) White"
    by code_simp
  have "(60, 59) \<in> set (allLegalMoves pinnedBishop White)"
    by (simp add: h3)
  from allLegalMoves_sound [OF h1 h2 this] h1 h2 h3 h4 h5 show ?thesis by simp
qed

section \<open>Search: positions without legal moves\<close>

lemma timeExpired_setRep:
  "timeExpired (setRep e k v) = (fst (timeExpired e), setRep (snd (timeExpired e)) k v)"
  by (simp add: timeExpired_def dateNow_def setRep_def)

lemma mated_moves: "allLegalMoves mated White = []"
  by code_simp

lemma mated_inCheck: "inCheck mated White"
  by code_simp

lemma mated_nodraw: "\<not> fiftyMoveDraw mated \<and> \<not> insufficientMaterial mated"
  by code_simp

lemma mated_turn: "turn mated = White"
  by (simp add: mated_def)

lemma timeExpired_freshEnv: "timeExpired freshEnv = (False, freshEnv \<lparr> reads := 1 \<rparr>)"
  by (simp add: timeExpired_def dateNow_def freshEnv_def)

lemma rep_freshEnv: "rep freshEnv k = 0"
  by (simp add: freshEnv_def)

lemma toInt32_0: "toInt32 0 = 0"
  by (rule toInt32_id) (simp add: is_int32_def)

lemma stalemated_facts:
  "allLegalMoves stalemated White = [] \<and> \<not> inCheck stalemated White
   \<and> \<not> fiftyMoveDraw stalemated \<and> \<not> insufficientMaterial stalemated"
  by code_simp

lemma stalemated_turn: "turn stalemated = White"
  by (simp add: stalemated_def)


lemma deadline_setRep: "deadline (setRep e k v) = deadline e"
  by (simp add: setRep_def)

lemma noDeadline: "deadline e = PosInf \<Longrightarrow> fst (timeExpired e) = False"
  by (simp add: timeExpired_def dateNow_def)

lemma deadline_freshEnv: "deadline (freshEnv \<lparr> reads := r \<rparr>) = PosInf"
  by (simp add: freshEnv_def)

lemma quiescence_mated:
  assumes "deadline e = PosInf"
  shows "map_option fst (quiescence (Suc n) exampleConfig e mated NegInf PosInf) = Some NegInf"
  using noDeadline [OF assms] mated_nodraw
  by (cases "timeExpired e")
     (simp add: Let_def mated_turn mated_moves mated_inCheck annotateMoves_def)

text \<open>
  In the checkmated position, searched with depth 2 at ply 1, \<^verbatim>\<open>alphaBeta\<close> returns
  \<open>-(MATE - (100 - 2)) = -99902\<close>, not \<open>-MATE + ply = -99999\<close>.
\<close>

theorem alphaBeta_mate_score_not_ply:
  "allLegalMoves mated (turn mated) = [] \<and> inCheck mated (turn mated)
   \<and> map_option fst (alphaBeta (Suc 0) exampleConfig freshEnv mated 2 NegInf PosInf 1)
       = Some (Fin (- 99902))
   \<and> Fin (- 99902) \<noteq> Fin (- MATE + 1)"
  using mated_nodraw
  by (simp add: Let_def timeExpired_setRep timeExpired_freshEnv terminalScoreGivenMoves_def
      mated_turn mated_moves mated_inCheck rep_freshEnv toInt32_0 MATE_def)

text \<open>
  C2 (as amended). When the side to move has no legal moves and \<^verbatim>\<open>alphaBeta\<close> reaches its
  terminal test (no fifty-move or insufficient-material draw, the position seen fewer than
  twice on the path, the deadline not expired, \<open>depth \<noteq> 0\<close>), it returns
  \<open>\<plusminus>(MATE - (100 - depth))\<close> when that side is in check, negative for White to move and
  positive for Black to move, and \<open>0\<close> when it is not in check. The score depends on the
  remaining depth, not on the ply.
\<close>

theorem alphaBeta_terminal:
  assumes "allLegalMoves st (turn st) = []" and "\<not> fiftyMoveDraw st"
    and "\<not> insufficientMaterial st"
    and "toInt32 (rep e (keyOf (zob cfg) st)) < 2"
    and "\<not> fst (timeExpired e)" and "depth \<noteq> 0"
  shows "map_option fst (alphaBeta (Suc n) cfg e st depth alpha beta ply)
           = Some (if inCheck st (turn st)
                   then Fin ((if turn st = White then - 1 else 1) * (MATE - (100 - depth)))
                   else Fin 0)"
  using assms
  by (simp add: Let_def timeExpired_setRep terminalScoreGivenMoves_def)

theorem alphaBeta_terminal_witness:
  "allLegalMoves mated (turn mated) = [] \<and> inCheck mated (turn mated)
   \<and> map_option fst (alphaBeta (Suc 0) exampleConfig freshEnv mated 3 NegInf PosInf 0)
       = Some (Fin (- 99903))
   \<and> allLegalMoves stalemated (turn stalemated) = [] \<and> \<not> inCheck stalemated (turn stalemated)
   \<and> map_option fst (alphaBeta (Suc 0) exampleConfig freshEnv stalemated 3 NegInf PosInf 0)
       = Some (Fin 0)"
proof -
  have t: "\<not> fst (timeExpired freshEnv)" by (simp add: timeExpired_freshEnv)
  have r: "toInt32 (rep freshEnv k) < 2" for k by (simp add: rep_freshEnv toInt32_0)
  have m: "allLegalMoves mated (turn mated) = []" by (simp add: mated_turn mated_moves)
  have s: "allLegalMoves stalemated (turn stalemated) = []"
    by (simp add: stalemated_turn stalemated_facts)
  from alphaBeta_terminal [where cfg = exampleConfig and depth = 3 and n = 0
        and alpha = NegInf and beta = PosInf and ply = 0, OF m _ _ r t]
    alphaBeta_terminal [where cfg = exampleConfig and depth = 3 and n = 0
        and alpha = NegInf and beta = PosInf and ply = 0, OF s _ _ r t]
    mated_nodraw stalemated_facts m s
  show ?thesis
    by (simp add: mated_turn mated_inCheck stalemated_turn MATE_def del: alphaBeta.simps)
qed

text \<open>
  C3. \<^verbatim>\<open>quiescence\<close> does not always return a finite number: in the checkmated position
  with the window \<open>(-\<infinity>, +\<infinity>)\<close>, an evaluator that returns \<open>0\<close> and no deadline, the
  side to move is in check and has no moves, so the move loop is left at once and the
  initial \<^verbatim>\<open>alpha = -Infinity\<close> is returned; \<^verbatim>\<open>alphaBeta\<close> at depth \<open>0\<close> hands the same value
  on.
\<close>

theorem quiescence_not_finite:
  "allLegalMoves mated (turn mated) = [] \<and> inCheck mated (turn mated)
   \<and> map_option fst (quiescence (Suc 0) exampleConfig freshEnv mated NegInf PosInf)
       = Some NegInf
   \<and> \<not> isFinite NegInf
   \<and> map_option fst (alphaBeta (Suc (Suc 0)) exampleConfig freshEnv mated 0 NegInf PosInf 0)
       = Some NegInf"
proof -
  have d: "deadline freshEnv = PosInf" by (simp add: freshEnv_def)
  have a: "map_option fst (alphaBeta (Suc (Suc 0)) exampleConfig freshEnv mated 0 NegInf PosInf 0)
       = Some NegInf"
    using mated_nodraw
    by (simp add: Let_def timeExpired_setRep timeExpired_freshEnv rep_freshEnv toInt32_0
        quiescence_mated deadline_setRep deadline_freshEnv del: quiescence.simps)
  from quiescence_mated [OF d, of 0] a show ?thesis
    by (simp add: mated_turn mated_moves mated_inCheck del: quiescence.simps)
qed

end
